theory Spec2Isabelle
  imports Main "HOL-Library.Word" "HOL-Library.AList"
begin

section \<open>Data model of the MCP client manager (package mcp)\<close>

text \<open>
  A Go map is an association list with distinct keys, listed in the order in which a
  \<^verbatim>\<open>range\<close> loop visits them. Go leaves that order unspecified, so every theorem
  below is stated for an arbitrary list. Lookup is \<open>map_of\<close>, assignment is
  \<open>AList.update\<close>, \<^verbatim>\<open>delete\<close> is \<open>AList.delete\<close>.

  \<^verbatim>\<open>time.Duration\<close> is a signed 64-bit count of nanoseconds: a \<open>64 word\<close> read with
  \<open>sint\<close>. The platform's \<^verbatim>\<open>int\<close> is taken as 64 bits wide. A \<^verbatim>\<open>time.Time\<close> is
  the integer number of nanoseconds the clock shows.
\<close>

type_synonym userID = string
type_synonym serverName = string
type_synonym ServerConfig = string
type_synonym Time = int
type_synonym Duration = "64 word"

datatype error = Err string

definition Minute :: Duration where
  "Minute = 60000000000"

record Config =
  Enabled :: bool
  Servers :: "(serverName \<times> ServerConfig) list"
  IdleTimeoutMinutes :: "64 word"

text \<open>
  \<^verbatim>\<open>llm.Tool\<close> as the catalog hands it out: name, description and parameter schema.
\<close>

type_synonym Tool = "string \<times> string \<times> string"

text \<open>
  Modelled from the spec: \<^verbatim>\<open>ToolDefinition\<close> and \<^verbatim>\<open>ServerConnection\<close> are declared
  outside the sources at hand. A tool definition has a name, a description, a parameter
  schema and the server session that must execute it; a server connection belongs to one
  server and one user and holds the tools that server advertised.
\<close>

record ToolDefinition =
  toolName :: string
  description :: string
  parameterSchema :: string
  session :: serverName

record ServerConnection =
  connServer :: serverName
  connUser :: userID
  advertised :: "Tool list"

text \<open>
  \<^verbatim>\<open>UserClient\<close>: field \<open>serverConns\<close> is the source's \<^verbatim>\<open>clients\<close> (the name is taken
  by the manager's registry below); the \<^verbatim>\<open>log\<close> field is the shared sink kept in
  the world.
\<close>

record UserClient =
  serverConns :: "(serverName \<times> ServerConnection) list"
  toolDefs :: "(string \<times> ToolDefinition) list"
  lastActivity :: Time
  userID :: userID

record Ticker =
  period :: Duration
  stopped :: bool
  pending :: bool

text \<open>
  \<^verbatim>\<open>ClientManager\<close>: \<open>closeChan\<close> holds whether the channel has been closed;
  \<open>cleanupTicker\<close> carries the ticker's period, whether \<^verbatim>\<open>Stop\<close> was called, and
  whether its one-slot channel \<^verbatim>\<open>C\<close> holds a tick.
\<close>

record ClientManager =
  config :: Config
  clients :: "(userID \<times> UserClient) list"
  cleanupTicker :: Ticker
  closeChan :: bool
  clientTimeout :: Duration

datatype logArg = ArgString string | ArgDuration Duration | ArgError error

datatype logEntry =
  LogDebug string "(string \<times> logArg) list"
| LogError string "(string \<times> logArg) list"

datatype task = NotStarted | Running | Returned

text \<open>
  The effects of the package on its surroundings: the lines written to the log sink, the
  server sessions it asked to open (user and server, one entry per connection attempt),
  the user clients on which \<^verbatim>\<open>Close\<close> was called (in order), and the state of the
  goroutine that runs \<^verbatim>\<open>cleanupInactiveClients\<close>.
\<close>

record World =
  logs :: "logEntry list"
  dialed :: "(userID \<times> serverName) list"
  closed :: "userID list"
  cleanupTask :: task

subsection \<open>NewClientManager\<close>

definition NewClientManager ::
  "Config \<Rightarrow> World \<Rightarrow> (ClientManager option \<times> error option) \<times> World" where
  "NewClientManager config0 w =
    (let config = (if sint (IdleTimeoutMinutes config0) \<le> 0
                   then config0\<lparr>IdleTimeoutMinutes := 30\<rparr> else config0)
     in if \<not> Enabled config \<or> length (Servers config) = 0 then
          ((None, None),
           w\<lparr>logs := logs w @
                [LogDebug ''MCP client manager is disabled or no servers configured'' []]\<rparr>)
        else
          let manager = \<lparr>config = config,
                         clients = [],
                         cleanupTicker = \<lparr>period = 5 * Minute, stopped = False, pending = False\<rparr>,
                         closeChan = False,
                         clientTimeout = IdleTimeoutMinutes config * Minute\<rparr>
          in ((Some manager, None), w\<lparr>cleanupTask := Running\<rparr>))"

subsection \<open>The eviction pass of cleanupInactiveClients\<close>

text \<open>
  \<^verbatim>\<open>now.Sub(t)\<close>: the difference as a \<^verbatim>\<open>Duration\<close>; Go returns the largest or the
  smallest \<^verbatim>\<open>Duration\<close> when the difference does not fit.
\<close>

definition time_Sub :: "Time \<Rightarrow> Time \<Rightarrow> Duration" where
  "time_Sub t u =
    (let d = t - u
     in if d > 9223372036854775807 then word_of_int 9223372036854775807
        else if d < - 9223372036854775808 then word_of_int (- 9223372036854775808)
        else word_of_int d)"

text \<open>
  \<^verbatim>\<open>now.Sub(client.lastActivity) > m.clientTimeout\<close>, a comparison of two signed
  64-bit values.
\<close>

definition inactive :: "Duration \<Rightarrow> Time \<Rightarrow> UserClient \<Rightarrow> bool" where
  "inactive timeout now client = (sint timeout < sint (time_Sub now (lastActivity client)))"

text \<open>
  \<^verbatim>\<open>UserClient.Close\<close> is not part of the sources at hand: what closing a given user
  client returns is a parameter \<open>uclose\<close>, and each call is recorded in \<open>closed\<close>.
\<close>

type_synonym closer = "UserClient \<Rightarrow> error option"

text \<open>
  What the body of the loop does to the world for an entry that is over the timeout: the
  debug line, \<^verbatim>\<open>client.Close()\<close>, and the error line when closing failed.
\<close>

definition closeInactive :: "closer \<Rightarrow> Time \<Rightarrow> userID \<Rightarrow> UserClient \<Rightarrow> World \<Rightarrow> World" where
  "closeInactive uclose now uid client w =
    (let w1 = w\<lparr>logs := logs w @
               [LogDebug ''Closing inactive MCP client''
                  [(''userID'', ArgString uid),
                   (''idleTime'', ArgDuration (time_Sub now (lastActivity client)))]]\<rparr>;
         w2 = w1\<lparr>closed := closed w1 @ [uid]\<rparr>
     in case uclose client of
          Some err \<Rightarrow>
            w2\<lparr>logs := logs w2 @
               [LogError ''Error closing inactive MCP client''
                  [(''userID'', ArgString uid), (''error'', ArgError err)]]\<rparr>
        | None \<Rightarrow> w2)"

text \<open>
  \<^verbatim>\<open>for userID, client := range m.clients\<close>: the entries still to be visited, the
  registry as it stands, and the world. The entry is deleted whatever closing returned.
\<close>

fun cleanupLoop ::
  "closer \<Rightarrow> Duration \<Rightarrow> Time \<Rightarrow> (userID \<times> UserClient) list \<Rightarrow>
   (userID \<times> UserClient) list \<times> World \<Rightarrow> (userID \<times> UserClient) list \<times> World" where
  "cleanupLoop uclose timeout now [] (cs, w) = (cs, w)"
| "cleanupLoop uclose timeout now ((uid, client) # rest) (cs, w) =
    (if inactive timeout now client
     then cleanupLoop uclose timeout now rest
            (AList.delete uid cs, closeInactive uclose now uid client w)
     else cleanupLoop uclose timeout now rest (cs, w))"

definition cleanupPass ::
  "closer \<Rightarrow> Time \<Rightarrow> ClientManager \<Rightarrow> World \<Rightarrow> ClientManager \<times> World" where
  "cleanupPass uclose now m w =
    (let (cs, w') = cleanupLoop uclose (clientTimeout m) now (clients m) (clients m, w)
     in (m\<lparr>clients := cs\<rparr>, w'))"

subsection \<open>The goroutine and the ticker\<close>

text \<open>
  The ticker's timer fires: a stopped ticker sends nothing, and a tick is dropped when
  the one-slot channel is full.
\<close>

definition tickerFires :: "ClientManager \<Rightarrow> ClientManager" where
  "tickerFires m =
    (if stopped (cleanupTicker m) then m
     else m\<lparr>cleanupTicker := (cleanupTicker m)\<lparr>pending := True\<rparr>\<rparr>)"

definition ticker_Stop :: "Ticker \<Rightarrow> Ticker" where
  "ticker_Stop t = t\<lparr>stopped := True\<rparr>"

text \<open>
  One turn of the \<^verbatim>\<open>for { select { ... } }\<close> loop of \<^verbatim>\<open>cleanupInactiveClients\<close>,
  given the case that \<^verbatim>\<open>select\<close> takes; \<open>TickerC now\<close> carries the value that
  \<^verbatim>\<open>time.Now()\<close> returns in the pass. The result is \<open>None\<close> when the goroutine is not
  running or the case is not ready (no tick in the channel, \<open>closeChan\<close> not closed).
\<close>

datatype selectCase = TickerC Time | CloseChan

definition cleanupInactiveClients ::
  "closer \<Rightarrow> selectCase \<Rightarrow> ClientManager \<Rightarrow> World \<Rightarrow> (ClientManager \<times> World) option" where
  "cleanupInactiveClients uclose sc m w =
    (if cleanupTask w \<noteq> Running then None
     else case sc of
       TickerC now \<Rightarrow>
         if pending (cleanupTicker m)
         then Some (cleanupPass uclose now
                      (m\<lparr>cleanupTicker := (cleanupTicker m)\<lparr>pending := False\<rparr>\<rparr>) w)
         else None
     | CloseChan \<Rightarrow>
         if closeChan m
         then Some (m\<lparr>cleanupTicker := ticker_Stop (cleanupTicker m)\<rparr>,
                    w\<lparr>cleanupTask := Returned\<rparr>)
         else None)"

text \<open>
  What can happen to a manager in the background: the timer fires, or the goroutine
  takes a turn. \<open>background\<close> runs a sequence of such events; \<open>None\<close> when one of them
  is not possible in the state it meets.
\<close>

datatype event = TimerFires | Select selectCase

fun background ::
  "closer \<Rightarrow> event list \<Rightarrow> ClientManager \<Rightarrow> World \<Rightarrow> (ClientManager \<times> World) option" where
  "background uclose [] m w = Some (m, w)"
| "background uclose (TimerFires # es) m w = background uclose es (tickerFires m) w"
| "background uclose (Select sc # es) m w =
    (case cleanupInactiveClients uclose sc m w of
       None \<Rightarrow> None
     | Some (m', w') \<Rightarrow> background uclose es m' w')"

text \<open>Eviction passes in a row, at the given times.\<close>

fun cleanupPasses ::
  "closer \<Rightarrow> Time list \<Rightarrow> ClientManager \<Rightarrow> World \<Rightarrow> ClientManager \<times> World" where
  "cleanupPasses uclose [] m w = (m, w)"
| "cleanupPasses uclose (now # ts) m w =
    (case cleanupPass uclose now m w of (m', w') \<Rightarrow> cleanupPasses uclose ts m' w')"

text \<open>The events in which the goroutine runs an eviction pass.\<close>

fun isPass :: "event \<Rightarrow> bool" where
  "isPass (Select (TickerC now)) = True"
| "isPass e = False"

subsection \<open>Close\<close>

text \<open>
  The body of the loop of \<^verbatim>\<open>Close\<close> for one entry: \<^verbatim>\<open>client.Close()\<close>, and on a
  failure the error line and the assignment to \<^verbatim>\<open>lastErr\<close>.
\<close>

definition closeOne ::
  "closer \<Rightarrow> userID \<Rightarrow> UserClient \<Rightarrow> error option \<times> World \<Rightarrow> error option \<times> World" where
  "closeOne uclose uid client s =
    (case s of (lastErr, w) \<Rightarrow>
       let w1 = w\<lparr>closed := closed w @ [uid]\<rparr>
       in case uclose client of
            Some err \<Rightarrow>
              (Some err,
               w1\<lparr>logs := logs w1 @
                  [LogError ''Failed to close MCP client''
                     [(''userID'', ArgString uid), (''error'', ArgError err)]]\<rparr>)
          | None \<Rightarrow> (lastErr, w1))"

fun closeLoop ::
  "closer \<Rightarrow> (userID \<times> UserClient) list \<Rightarrow> error option \<times> World \<Rightarrow> error option \<times> World" where
  "closeLoop uclose [] s = s"
| "closeLoop uclose ((uid, client) # rest) s = closeLoop uclose rest (closeOne uclose uid client s)"

text \<open>
  \<^verbatim>\<open>close(m.closeChan)\<close> panics on a channel that is already closed: the result is
  \<open>Inl\<close> with the panic's message.
\<close>

definition Close ::
  "closer \<Rightarrow> ClientManager \<Rightarrow> World \<Rightarrow> string + (error option \<times> ClientManager \<times> World)" where
  "Close uclose m w =
    (if closeChan m then Inl ''close of closed channel''
     else
       let m1 = m\<lparr>closeChan := True\<rparr>;
           m2 = m1\<lparr>cleanupTicker := ticker_Stop (cleanupTicker m1)\<rparr>;
           (lastErr, w') = closeLoop uclose (clients m2) (None, w)
       in Inr (lastErr, m2\<lparr>clients := []\<rparr>, w'))"

subsection \<open>Creating a user's client\<close>

text \<open>
  What opening a session to a server returns (handshake and tool listing): an error, or
  the tools the server advertises. It is the behaviour of the servers at the time of the
  call, a parameter of every operation that connects.
\<close>

type_synonym dialer = "userID \<Rightarrow> serverName \<Rightarrow> ServerConfig \<Rightarrow> error + Tool list"

text \<open>
  Modelled from the spec: registration of one server's advertised tools in the catalog,
  keyed by tool name; a later registration under a name overwrites the earlier one.
\<close>

definition registerTools ::
  "serverName \<Rightarrow> Tool list \<Rightarrow> (string \<times> ToolDefinition) list \<Rightarrow> (string \<times> ToolDefinition) list" where
  "registerTools server tools defs =
    foldl (\<lambda>ds (n, d, s).
             AList.update n \<lparr>toolName = n, description = d, parameterSchema = s, session = server\<rparr> ds)
          defs tools"

text \<open>
  Modelled from the spec: \<^verbatim>\<open>UserClient.ConnectToAllServers\<close> is not in the sources at
  hand. For each configured server, in the order of the iteration, it opens a session and
  merges the advertised tools into the catalog; it fails with the first connection error
  and aborts.
\<close>

fun ConnectToAllServers ::
  "dialer \<Rightarrow> (serverName \<times> ServerConfig) list \<Rightarrow> UserClient \<Rightarrow> World \<Rightarrow>
   error option \<times> UserClient \<times> World" where
  "ConnectToAllServers dial [] c w = (None, c, w)"
| "ConnectToAllServers dial ((server, sc) # rest) c w =
    (let w1 = w\<lparr>dialed := dialed w @ [(userID c, server)]\<rparr>
     in case dial (userID c) server sc of
          Inl err \<Rightarrow> (Some err, c, w1)
        | Inr tools \<Rightarrow>
            ConnectToAllServers dial rest
              (c\<lparr>serverConns :=
                   AList.update server
                     \<lparr>connServer = server, connUser = userID c, advertised = tools\<rparr>
                     (serverConns c),
                 toolDefs := registerTools server tools (toolDefs c)\<rparr>)
              w1)"

text \<open>
  Modelled from the spec: \<^verbatim>\<open>UserClient.GetTools\<close> is not in the sources at hand. It
  returns the merged catalog as a list, one tool per catalog entry.
\<close>

definition GetTools :: "UserClient \<Rightarrow> Tool list" where
  "GetTools c = map (\<lambda>(n, td). (toolName td, description td, parameterSchema td)) (toolDefs c)"

fun errorString :: "error \<Rightarrow> string" where
  "errorString (Err s) = s"

text \<open>\<^verbatim>\<open>fmt.Errorf(prefix + ": %w", err)\<close> with the prefix already formatted.\<close>

definition Errorf :: "string \<Rightarrow> error \<Rightarrow> error" where
  "Errorf prefix err = Err (prefix @ '': '' @ errorString err)"

text \<open>
  \<open>now\<close> is the value \<^verbatim>\<open>time.Now()\<close> returns in the call (every path reads the clock
  at most once). A write through the pointer \<^verbatim>\<open>client\<close> changes the entry of the
  registry in place: \<open>AList.map_entry\<close>.
\<close>

definition touch :: "Time \<Rightarrow> UserClient \<Rightarrow> UserClient" where
  "touch now client = client\<lparr>lastActivity := now\<rparr>"

definition createAndStoreUserClient ::
  "dialer \<Rightarrow> Time \<Rightarrow> userID \<Rightarrow> ClientManager \<Rightarrow> World \<Rightarrow>
   (error + UserClient) \<times> ClientManager \<times> World" where
  "createAndStoreUserClient dial now uid m w =
    (case map_of (clients m) uid of
       Some client \<Rightarrow>
         (Inr (touch now client),
          m\<lparr>clients := AList.map_entry uid (touch now) (clients m)\<rparr>, w)
     | None \<Rightarrow>
         let userClient = \<lparr>serverConns = [], toolDefs = [], lastActivity = now, userID = uid\<rparr>
         in case ConnectToAllServers dial (Servers (config m)) userClient w of
              (Some err, _, w') \<Rightarrow>
                (Inl (Errorf (''failed to initialize MCP client for user '' @ uid) err), m, w')
            | (None, userClient', w') \<Rightarrow>
                (Inr userClient', m\<lparr>clients := AList.update uid userClient' (clients m)\<rparr>, w'))"

definition getClientForUser ::
  "dialer \<Rightarrow> Time \<Rightarrow> userID \<Rightarrow> ClientManager \<Rightarrow> World \<Rightarrow>
   (error + UserClient) \<times> ClientManager \<times> World" where
  "getClientForUser dial now uid m w =
    (case map_of (clients m) uid of
       Some client \<Rightarrow>
         (Inr (touch now client),
          m\<lparr>clients := AList.map_entry uid (touch now) (clients m)\<rparr>, w)
     | None \<Rightarrow> createAndStoreUserClient dial now uid m w)"

definition GetToolsForUser ::
  "dialer \<Rightarrow> Time \<Rightarrow> userID \<Rightarrow> ClientManager \<Rightarrow> World \<Rightarrow>
   (error + Tool list) \<times> ClientManager \<times> World" where
  "GetToolsForUser dial now uid m w =
    (case getClientForUser dial now uid m w of
       (Inl err, m', w') \<Rightarrow>
         (Inl (Errorf (''failed to get MCP client for user '' @ uid) err), m', w')
     | (Inr userClient, m', w') \<Rightarrow> (Inr (GetTools userClient), m', w'))"

subsection \<open>Concurrent catalog requests\<close>

text \<open>
  Several goroutines call \<^verbatim>\<open>GetToolsForUser\<close> at once. The registry lock makes each of
  these an indivisible step of a caller: the look-up under the read lock
  (\<open>Start\<close>), the refresh of \<^verbatim>\<open>lastActivity\<close> of the entry found (\<open>Found\<close>), and
  \<^verbatim>\<open>createAndStoreUserClient\<close> under the write lock (\<open>Missing\<close>). \<open>Done\<close> holds what
  \<^verbatim>\<open>GetToolsForUser\<close> returned to the caller.
\<close>

datatype pc = Start | Found UserClient | Missing | Done "error + Tool list"

definition requestStep ::
  "dialer \<Rightarrow> Time \<Rightarrow> userID \<Rightarrow> pc \<Rightarrow> ClientManager \<Rightarrow> World \<Rightarrow> pc \<times> ClientManager \<times> World" where
  "requestStep dial now uid p m w =
    (case p of
       Start \<Rightarrow>
         (case map_of (clients m) uid of
            Some client \<Rightarrow> (Found client, m, w)
          | None \<Rightarrow> (Missing, m, w))
     | Found client \<Rightarrow>
         (Done (Inr (GetTools (touch now client))),
          m\<lparr>clients := AList.map_entry uid (touch now) (clients m)\<rparr>, w)
     | Missing \<Rightarrow>
         (case createAndStoreUserClient dial now uid m w of
            (Inl err, m', w') \<Rightarrow>
              (Done (Inl (Errorf (''failed to get MCP client for user '' @ uid) err)), m', w')
          | (Inr userClient, m', w') \<Rightarrow> (Done (Inr (GetTools userClient)), m', w'))
     | Done r \<Rightarrow> (Done r, m, w))"

text \<open>
  A schedule is a list of turns: which caller moves, what the clock shows, and how the
  servers answer at that moment. Caller \<open>i\<close> asks for the catalog of user \<open>uids ! i\<close>.
\<close>

type_synonym turn = "nat \<times> Time \<times> dialer"

fun requests ::
  "userID list \<Rightarrow> turn list \<Rightarrow> pc list \<Rightarrow> ClientManager \<Rightarrow> World \<Rightarrow>
   pc list \<times> ClientManager \<times> World" where
  "requests uids [] ps m w = (ps, m, w)"
| "requests uids ((i, now, dial) # ts) ps m w =
    (if i < length ps \<and> i < length uids then
       (case requestStep dial now (uids ! i) (ps ! i) m w of
          (p', m', w') \<Rightarrow> requests uids ts (ps[i := p']) m' w')
     else requests uids ts ps m w)"

section \<open>Tool call approval (package conversations)\<close>

text \<open>
  \<^verbatim>\<open>llm.ToolCall\<close> with the fields \<^verbatim>\<open>HandleToolCall\<close> reads and writes. The status is
  one of the three constants the handler assigns, or any other value the stored JSON
  carried.
\<close>

datatype ToolCallStatus =
  ToolCallStatusError
| ToolCallStatusSuccess
| ToolCallStatusRejected
| ToolCallStatusOther int

record ToolCall =
  ID :: string
  Name :: string
  Arguments :: string
  Result :: string
  Status :: ToolCallStatus

text \<open>
  The value of the post's \<^verbatim>\<open>ToolCallProp\<close>: absent, a string, or a value of another
  type (on which the type assertion \<^verbatim>\<open>toolsJSON.(string)\<close> panics).
\<close>

datatype postProp = PropNil | PropString string | PropOther

text \<open>
  What the collaborators of \<^verbatim>\<open>HandleToolCall\<close> answer during one call: whether the bot
  exists, the errors (if any) of the plugin API, the JSON codec, the thread store, the
  conversion, the language model and the streaming service, and for the tool at index
  \<open>i\<close> what \<^verbatim>\<open>ResolveTool\<close> returns.
\<close>

record Collaborators =
  GetBotByID :: bool
  UserGet :: "error option"
  ToolCallProp :: postProp
  Unmarshal :: "string \<Rightarrow> error + ToolCall list"
  ResolveTool :: "nat \<Rightarrow> ToolCall \<Rightarrow> error + string"
  Marshal :: "ToolCall list \<Rightarrow> error + string"
  UpdatePost :: "error option"
  GetThreadData :: "error option"
  existingConversationToLLMPosts :: "error option"
  ChatCompletion :: "error option"
  StreamToNewPost :: "error option"

text \<open>The calls the handler makes that act on its surroundings, in order.\<close>

datatype call =
  CallUpdatePost string
| CallGetThreadData
| CallChatCompletion
| CallStreamToNewPost

text \<open>The body of \<^verbatim>\<open>for i := range tools\<close> for the tool at index \<open>i\<close>.\<close>

definition resolveOne ::
  "(nat \<Rightarrow> ToolCall \<Rightarrow> error + string) \<Rightarrow> string list \<Rightarrow> nat \<Rightarrow> ToolCall \<Rightarrow> ToolCall" where
  "resolveOne resolve acceptedToolIDs i tc =
    (if ID tc \<in> set acceptedToolIDs then
       (case resolve i tc of
          Inl resolveErr \<Rightarrow> tc\<lparr>Result := ''Tool call failed'', Status := ToolCallStatusError\<rparr>
        | Inr result \<Rightarrow> tc\<lparr>Result := result, Status := ToolCallStatusSuccess\<rparr>)
     else tc\<lparr>Result := ''Tool call rejected by user'', Status := ToolCallStatusRejected\<rparr>)"

fun toolLoop ::
  "(nat \<Rightarrow> ToolCall \<Rightarrow> error + string) \<Rightarrow> string list \<Rightarrow> nat \<Rightarrow> ToolCall list \<Rightarrow> ToolCall list" where
  "toolLoop resolve acceptedToolIDs i [] = []"
| "toolLoop resolve acceptedToolIDs i (tc # rest) =
    resolveOne resolve acceptedToolIDs i tc # toolLoop resolve acceptedToolIDs (Suc i) rest"

text \<open>
  The result is the panic's message (\<open>Inl\<close>) or the returned error (\<open>Inr\<close>, \<open>None\<close>
  for \<^verbatim>\<open>nil\<close>), with the calls made.
\<close>

definition HandleToolCall ::
  "Collaborators \<Rightarrow> string list \<Rightarrow> (string + error option) \<times> call list" where
  "HandleToolCall env acceptedToolIDs =
    (if \<not> GetBotByID env then (Inr (Some (Err ''unable to get bot'')), [])
     else case UserGet env of
       Some err \<Rightarrow> (Inr (Some err), [])
     | None \<Rightarrow>
        (case ToolCallProp env of
           PropNil \<Rightarrow> (Inr (Some (Err ''post missing pending tool calls'')), [])
         | PropOther \<Rightarrow> (Inl ''interface conversion: interface {} is not string'', [])
         | PropString toolsJSON \<Rightarrow>
            (case Unmarshal env toolsJSON of
               Inl unmarshalErr \<Rightarrow>
                 (Inr (Some (Err ''post pending tool calls not valid JSON'')), [])
             | Inr tools0 \<Rightarrow>
                let tools = toolLoop (ResolveTool env) acceptedToolIDs 0 tools0
                in case Marshal env tools of
                     Inl err \<Rightarrow>
                       (Inr (Some (Errorf ''failed to marshal tool call results'' err)), [])
                   | Inr resolvedToolsJSON \<Rightarrow>
                      (case UpdatePost env of
                         Some updateErr \<Rightarrow>
                           (Inr (Some (Errorf ''failed to update post with tool call results''
                                         updateErr)),
                            [CallUpdatePost resolvedToolsJSON])
                       | None \<Rightarrow>
                          if \<not> list_ex (\<lambda>tc. Status tc = ToolCallStatusSuccess) tools
                          then (Inr None, [CallUpdatePost resolvedToolsJSON])
                          else case GetThreadData env of
                            Some err \<Rightarrow>
                              (Inr (Some (Errorf ''failed to get previous conversation'' err)),
                               [CallUpdatePost resolvedToolsJSON, CallGetThreadData])
                          | None \<Rightarrow>
                             (case existingConversationToLLMPosts env of
                                Some err \<Rightarrow>
                                  (Inr (Some (Errorf
                                     ''failed to convert existing conversation to LLM posts'' err)),
                                   [CallUpdatePost resolvedToolsJSON, CallGetThreadData])
                              | None \<Rightarrow>
                                 (case ChatCompletion env of
                                    Some err \<Rightarrow>
                                      (Inr (Some (Errorf ''failed to get chat completion'' err)),
                                       [CallUpdatePost resolvedToolsJSON, CallGetThreadData,
                                        CallChatCompletion])
                                  | None \<Rightarrow>
                                     (case StreamToNewPost env of
                                        Some err \<Rightarrow>
                                          (Inr (Some (Errorf
                                             ''failed to stream result to new post'' err)),
                                           [CallUpdatePost resolvedToolsJSON, CallGetThreadData,
                                            CallChatCompletion, CallStreamToNewPost])
                                      | None \<Rightarrow>
                                          (Inr None,
                                           [CallUpdatePost resolvedToolsJSON, CallGetThreadData,
                                            CallChatCompletion, CallStreamToNewPost]))))))))"

section \<open>Concrete inputs\<close>

definition world0 :: World where
  "world0 = \<lparr>logs = [], dialed = [], closed = [], cleanupTask = NotStarted\<rparr>"

definition twoServers :: "64 word \<Rightarrow> Config" where
  "twoServers k =
    \<lparr>Enabled = True, Servers = [(''a'', ''cmd-a''), (''b'', ''cmd-b'')], IdleTimeoutMinutes = k\<rparr>"

definition exampleClient :: "userID \<Rightarrow> Time \<Rightarrow> UserClient" where
  "exampleClient uid t = \<lparr>serverConns = [], toolDefs = [], lastActivity = t, userID = uid\<rparr>"

definition exampleManager :: "(userID \<times> UserClient) list \<Rightarrow> ClientManager" where
  "exampleManager cs =
    \<lparr>config = twoServers 1, clients = cs,
     cleanupTicker = \<lparr>period = 5 * Minute, stopped = False, pending = False\<rparr>,
     closeChan = False, clientTimeout = 1 * Minute\<rparr>"

definition failingWith :: "(userID \<times> string) list \<Rightarrow> closer" where
  "failingWith failures c = map_option Err (map_of failures (userID c))"

definition failingFor :: "userID \<Rightarrow> closer" where
  "failingFor uid = failingWith [(uid, ''broken pipe'')]"

definition runningWorld :: World where
  "runningWorld = world0\<lparr>cleanupTask := Running\<rparr>"

definition threeUsers :: ClientManager where
  "threeUsers =
    exampleManager [(''u1'', exampleClient ''u1'' 0), (''u3'', exampleClient ''u3'' 50000000000),
                    (''u2'', exampleClient ''u2'' 0)]"

definition noDial :: dialer where
  "noDial uid server sc = Inl (Err ''connection refused'')"

definition twoUsers :: ClientManager where
  "twoUsers = exampleManager [(''u1'', exampleClient ''u1'' 0), (''u2'', exampleClient ''u2'' 0)]"

definition dialWith :: "(serverName \<times> Tool list) list \<Rightarrow> dialer" where
  "dialWith answers uid server sc =
    (case map_of answers server of
       Some tools \<Rightarrow> Inr tools
     | None \<Rightarrow> Inl (Err (''cannot reach '' @ server)))"

definition serverA :: "(serverName \<times> Tool list) list" where
  "serverA = [(''a'', [(''x'', ''from a'', ''{}'')])]"

definition serversAB :: "(serverName \<times> Tool list) list" where
  "serversAB = [(''a'', [(''x'', ''from a'', ''{}''), (''y'', ''only a'', ''{}'')]),
                (''b'', [(''x'', ''from b'', ''{}'')])]"

definition pendingCall :: "string \<Rightarrow> string \<Rightarrow> ToolCall" where
  "pendingCall i n =
    \<lparr>ID = i, Name = n, Arguments = ''{}'', Result = [], Status = ToolCallStatusOther 0\<rparr>"

definition pendingBatch :: "ToolCall list" where
  "pendingBatch =
    [pendingCall ''t1'' ''search'', pendingCall ''t2'' ''missing'', pendingCall ''t3'' ''search'']"

definition exampleCollaborators :: "error option \<Rightarrow> Collaborators" where
  "exampleCollaborators upd =
    \<lparr>GetBotByID = True, UserGet = None, ToolCallProp = PropString ''pending'',
     Unmarshal = (\<lambda>s. Inr pendingBatch),
     ResolveTool = (\<lambda>i tc. if Name tc = ''search'' then Inr ''found''
                            else Inl (Err ''unknown tool'')),
     Marshal = (\<lambda>ts. Inr ''resolved''),
     UpdatePost = upd, GetThreadData = None, existingConversationToLLMPosts = None,
     ChatCompletion = None, StreamToNewPost = None\<rparr>"

section \<open>Construction of the manager\<close>

lemma sint_Minute: "sint Minute = 60000000000"
  by (simp add: Minute_def)

lemma sint_times_Minute:
  "sint (k * Minute) = signed_take_bit 63 (sint (k :: 64 word) * 60000000000)"
  by (simp add: sint_word_ariths sint_Minute)

lemma sint_minutes_fit:
  assumes "0 \<le> sint (k :: 64 word)" and "sint k \<le> 153722867"
  shows "sint (k * Minute) = sint k * 60000000000"
proof -
  have "signed_take_bit 63 (sint k * 60000000000) = sint k * 60000000000"
    using assms by (intro signed_take_bit_int_eq_self) simp_all
  then show ?thesis by (simp add: sint_times_Minute)
qed

lemma sint_minutes_overflow:
  assumes "153722867 < sint (k :: 64 word)"
  shows "sint (k * Minute) \<noteq> sint k * 60000000000"
proof -
  have "sint (k * Minute) < 2 ^ 63"
    using sint_less [of "k * Minute"] by simp
  moreover have "(2 :: int) ^ 63 \<le> sint k * 60000000000"
    using assms by simp
  ultimately show ?thesis by linarith
qed

lemma NewClientManager_Some:
  assumes "fst (fst (NewClientManager cfg w)) = Some m"
  shows "Enabled cfg" and "Servers cfg \<noteq> []"
    and "clientTimeout m =
           (if sint (IdleTimeoutMinutes cfg) \<le> 0 then 30 else IdleTimeoutMinutes cfg) * Minute"
    and "clients m = []" and "\<not> closeChan m"
    and "cleanupTicker m = \<lparr>period = 5 * Minute, stopped = False, pending = False\<rparr>"
    and "Servers (config m) = Servers cfg"
  using assms by (auto simp: NewClientManager_def Let_def split: if_splits)

text \<open>
  C4. \<^verbatim>\<open>NewClientManager\<close> returns a nil manager together with a nil error exactly
  when the configuration is not enabled or has no servers. Otherwise it returns a
  manager (with a nil error) whose eviction task is running: the goroutine has been
  started, the ticker is live with a period of five minutes, the close channel is open,
  and the registry is empty.
\<close>

theorem NewClientManager_nil_iff_disabled:
  "(fst (NewClientManager cfg w) = (None, None)) = (\<not> Enabled cfg \<or> Servers cfg = [])
   \<and> (Enabled cfg \<and> Servers cfg \<noteq> [] \<longrightarrow>
        (\<exists>m. fst (NewClientManager cfg w) = (Some m, None)
           \<and> cleanupTask (snd (NewClientManager cfg w)) = Running
           \<and> \<not> stopped (cleanupTicker m)
           \<and> sint (period (cleanupTicker m)) = 5 * 60000000000
           \<and> \<not> closeChan m
           \<and> clients m = []))"
  by (simp add: NewClientManager_def Let_def Minute_def)

theorem NewClientManager_nil_iff_disabled_witness:
  "Enabled (twoServers 1) \<and> Servers (twoServers 1) \<noteq> []
   \<and> fst (NewClientManager (twoServers 1) world0) \<noteq> (None, None)
   \<and> cleanupTask (snd (NewClientManager (twoServers 1) world0)) = Running
   \<and> fst (NewClientManager ((twoServers 1)\<lparr>Enabled := False\<rparr>) world0) = (None, None)
   \<and> fst (NewClientManager ((twoServers 1)\<lparr>Servers := []\<rparr>) world0) = (None, None)"
  using NewClientManager_nil_iff_disabled [of "twoServers 1" world0]
    NewClientManager_nil_iff_disabled [of "(twoServers 1)\<lparr>Enabled := False\<rparr>" world0]
    NewClientManager_nil_iff_disabled [of "(twoServers 1)\<lparr>Servers := []\<rparr>" world0]
  by (auto simp: twoServers_def)

text \<open>
  C5, as amended. When \<^verbatim>\<open>NewClientManager\<close> returns a manager: a configured number of
  minutes that is zero or negative gives a timeout of exactly 30 minutes; a positive
  number of minutes up to 153722867 gives a timeout of that many minutes; a larger
  number does not, since its count of nanoseconds does not fit the 64 bits of a
  \<^verbatim>\<open>time.Duration\<close> and the multiplication wraps around.
\<close>

theorem NewClientManager_clientTimeout:
  assumes "fst (fst (NewClientManager cfg w)) = Some m"
  shows "(sint (IdleTimeoutMinutes cfg) \<le> 0 \<longrightarrow> sint (clientTimeout m) = 30 * 60000000000)
    \<and> (0 < sint (IdleTimeoutMinutes cfg) \<and> sint (IdleTimeoutMinutes cfg) \<le> 153722867 \<longrightarrow>
         sint (clientTimeout m) = sint (IdleTimeoutMinutes cfg) * 60000000000)
    \<and> (153722867 < sint (IdleTimeoutMinutes cfg) \<longrightarrow>
         sint (clientTimeout m) \<noteq> sint (IdleTimeoutMinutes cfg) * 60000000000)"
proof -
  let ?k = "IdleTimeoutMinutes cfg"
  have t: "clientTimeout m = (if sint ?k \<le> 0 then 30 else ?k) * Minute"
    using assms by (rule NewClientManager_Some)
  have "sint ?k \<le> 0 \<Longrightarrow> sint (clientTimeout m) = 30 * 60000000000"
    using t by (simp add: Minute_def)
  moreover have "0 < sint ?k \<Longrightarrow> sint ?k \<le> 153722867 \<Longrightarrow>
      sint (clientTimeout m) = sint ?k * 60000000000"
    using t sint_minutes_fit [of ?k] by simp
  moreover have "153722867 < sint ?k \<Longrightarrow> sint (clientTimeout m) \<noteq> sint ?k * 60000000000"
    using t sint_minutes_overflow [of ?k] by simp
  ultimately show ?thesis by blast
qed

theorem NewClientManager_clientTimeout_witness:
  "sint (clientTimeout (the (fst (fst (NewClientManager (twoServers 0) world0))))) = 1800000000000
   \<and> sint (clientTimeout (the (fst (fst (NewClientManager (twoServers (- 7)) world0))))) = 1800000000000
   \<and> sint (clientTimeout (the (fst (fst (NewClientManager (twoServers 45) world0))))) = 2700000000000
   \<and> sint (clientTimeout (the (fst (fst (NewClientManager (twoServers 153722868) world0)))))
       \<noteq> 9223372080000000000"
proof -
  have some: "fst (fst (NewClientManager (twoServers k) world0))
      = Some (the (fst (fst (NewClientManager (twoServers k) world0))))" for k
    by (simp add: NewClientManager_def twoServers_def Let_def)
  have k: "IdleTimeoutMinutes (twoServers k) = k" for k
    by (simp add: twoServers_def)
  show ?thesis
    using NewClientManager_clientTimeout [OF some [of 0]]
      NewClientManager_clientTimeout [OF some [of "- 7"]]
      NewClientManager_clientTimeout [OF some [of 45]]
      NewClientManager_clientTimeout [OF some [of 153722868]]
    by (simp add: k)
qed

text \<open>
  C5 as stated fails: the configuration is enabled with two servers and asks for
  153722868 minutes, a positive value; the manager's timeout is the negative duration
  of -9223371993709551616 nanoseconds, not 153722868 minutes (9223372080000000000
  nanoseconds).
\<close>

theorem NewClientManager_clientTimeout_counterexample:
  "0 < sint (IdleTimeoutMinutes (twoServers 153722868))
   \<and> fst (fst (NewClientManager (twoServers 153722868) world0)) \<noteq> None
   \<and> sint (clientTimeout (the (fst (fst (NewClientManager (twoServers 153722868) world0)))))
       = - 9223371993709551616
   \<and> sint (IdleTimeoutMinutes (twoServers 153722868)) * 60000000000 = 9223372080000000000"
  by (simp add: NewClientManager_def twoServers_def Let_def Minute_def)

text \<open>
  C10. \<^verbatim>\<open>NewClientManager\<close> returns a nil error for every configuration and every
  state of the log sink; a disabled configuration shows only in the nil manager.
\<close>

theorem NewClientManager_error_nil:
  "snd (fst (NewClientManager cfg w)) = None"
  by (simp add: NewClientManager_def Let_def)

theorem NewClientManager_error_nil_witness:
  "snd (fst (NewClientManager (twoServers 1) world0)) = None
   \<and> snd (fst (NewClientManager ((twoServers 1)\<lparr>Enabled := False\<rparr>) world0)) = None
   \<and> fst (fst (NewClientManager (twoServers 1) world0)) \<noteq> None
   \<and> fst (fst (NewClientManager ((twoServers 1)\<lparr>Enabled := False\<rparr>) world0)) = None"
  using NewClientManager_error_nil [of "twoServers 1" world0]
    NewClientManager_error_nil [of "(twoServers 1)\<lparr>Enabled := False\<rparr>" world0]
  by (simp add: NewClientManager_def twoServers_def Let_def)

section \<open>Eviction and teardown\<close>

lemma time_Sub_fits:
  assumes "- 9223372036854775808 \<le> t - u" and "t - u \<le> 9223372036854775807"
  shows "sint (time_Sub t u) = t - u"
proof -
  have "sint (word_of_int (t - u) :: 64 word) = signed_take_bit 63 (t - u)"
    by (subst sint_sbintrunc') simp
  also have "\<dots> = t - u"
    using assms by (intro signed_take_bit_int_eq_self) simp_all
  finally show ?thesis using assms by (simp add: time_Sub_def Let_def)
qed

lemma time_Sub_above:
  assumes "9223372036854775807 < t - u"
  shows "sint (time_Sub t u) = 9223372036854775807"
  using assms by (simp add: time_Sub_def Let_def)

lemma time_Sub_below:
  assumes "t - u < - 9223372036854775808"
  shows "sint (time_Sub t u) = - 9223372036854775808"
  using assms by (simp add: time_Sub_def Let_def)

lemma inactive_iff:
  assumes "sint T < 9223372036854775807"
  shows "inactive T now c = (sint T < now - lastActivity c)"
proof -
  let ?d = "now - lastActivity c"
  consider "?d < - 9223372036854775808"
    | "- 9223372036854775808 \<le> ?d" "?d \<le> 9223372036854775807"
    | "9223372036854775807 < ?d" by linarith
  then show ?thesis
  proof cases
    case 1
    have "- 9223372036854775808 \<le> sint T" using sint_ge [of T] by simp
    then show ?thesis using 1 time_Sub_below [OF 1] by (simp add: inactive_def)
  next
    case 2
    then show ?thesis using time_Sub_fits [of now "lastActivity c"] by (simp add: inactive_def)
  next
    case 3
    then show ?thesis using assms time_Sub_above [OF 3] by (simp add: inactive_def)
  qed
qed

lemma sint_times_Minute_not_max: "sint (k * Minute) < 9223372036854775807"
proof -
  have "even (sint (k * Minute))"
    by (simp add: sint_times_Minute even_signed_take_bit_iff)
  then have "sint (k * Minute) \<noteq> 9223372036854775807" by auto
  moreover have "sint (k * Minute) < 2 ^ 63" using sint_less [of "k * Minute"] by simp
  ultimately show ?thesis by simp
qed

lemma NewClientManager_timeout_not_max:
  assumes "fst (fst (NewClientManager cfg w)) = Some m"
  shows "sint (clientTimeout m) < 9223372036854775807"
  using NewClientManager_Some(3) [OF assms] sint_times_Minute_not_max by simp


lemma closeInactive_closed:
  "closed (closeInactive uclose now uid client w) = closed w @ [uid]"
  by (simp add: closeInactive_def Let_def split: option.splits)

lemma closeInactive_dialed:
  "dialed (closeInactive uclose now uid client w) = dialed w"
  by (simp add: closeInactive_def Let_def split: option.splits)

lemma closeInactive_task:
  "cleanupTask (closeInactive uclose now uid client w) = cleanupTask w"
  by (simp add: closeInactive_def Let_def split: option.splits)

lemma closeInactive_logs_grow:
  "\<exists>l. logs (closeInactive uclose now uid client w) = logs w @ l"
  by (simp add: closeInactive_def Let_def split: option.splits)

lemma closeInactive_logs_error:
  assumes "uclose client = Some err"
  shows "LogError ''Error closing inactive MCP client''
           [(''userID'', ArgString uid), (''error'', ArgError err)]
         \<in> set (logs (closeInactive uclose now uid client w))"
  using assms by (simp add: closeInactive_def Let_def)

lemma cleanupLoop_registry:
  "fst (cleanupLoop uclose T now es (cs, w)) =
     filter (\<lambda>e. fst e \<notin> fst ` {x \<in> set es. inactive T now (snd x)}) cs"
proof (induction es arbitrary: cs w)
  case Nil
  then show ?case by simp
next
  case (Cons e es)
  obtain uid client where e: "e = (uid, client)" by (cases e)
  show ?case
  proof (cases "inactive T now client")
    case True
    have s: "{x \<in> set (e # es). inactive T now (snd x)} = insert e {x \<in> set es. inactive T now (snd x)}"
      using True e by auto
    have "fst (cleanupLoop uclose T now (e # es) (cs, w)) =
        filter (\<lambda>e. fst e \<notin> fst ` {x \<in> set es. inactive T now (snd x)}) (AList.delete uid cs)"
      using True e Cons.IH by simp
    also have "\<dots> = filter (\<lambda>x. fst x \<notin> fst ` {x \<in> set (e # es). inactive T now (snd x)}) cs"
      unfolding s using e by (auto simp: AList.delete_eq intro!: filter_cong)
    finally show ?thesis .
  next
    case False
    have "{x \<in> set (e # es). inactive T now (snd x)} = {x \<in> set es. inactive T now (snd x)}"
      using False e by auto
    then show ?thesis using False e Cons.IH by simp
  qed
qed

lemma cleanupLoop_closed:
  "closed (snd (cleanupLoop uclose T now es (cs, w))) =
     closed w @ map fst (filter (\<lambda>e. inactive T now (snd e)) es)"
  by (induction es arbitrary: cs w) (auto simp: closeInactive_closed)

lemma cleanupLoop_dialed:
  "dialed (snd (cleanupLoop uclose T now es (cs, w))) = dialed w"
  by (induction es arbitrary: cs w) (auto simp: closeInactive_dialed)

lemma cleanupLoop_task:
  "cleanupTask (snd (cleanupLoop uclose T now es (cs, w))) = cleanupTask w"
  by (induction es arbitrary: cs w) (auto simp: closeInactive_task)

lemma cleanupLoop_logs_grow:
  "\<exists>ls. logs (snd (cleanupLoop uclose T now es (cs, w))) = logs w @ ls"
proof (induction es arbitrary: cs w)
  case Nil
  then show ?case by simp
next
  case (Cons e es)
  obtain uid client where e: "e = (uid, client)" by (cases e)
  show ?case
  proof (cases "inactive T now client")
    case False
    then show ?thesis using e Cons.IH by simp
  next
    case True
    obtain l0 where l0: "logs (closeInactive uclose now uid client w) = logs w @ l0"
      using closeInactive_logs_grow by blast
    obtain ls where "logs (snd (cleanupLoop uclose T now es
        (AList.delete uid cs, closeInactive uclose now uid client w))) =
        logs (closeInactive uclose now uid client w) @ ls"
      using Cons.IH by blast
    then show ?thesis using True e l0 by simp
  qed
qed

lemma cleanupLoop_logs_error:
  assumes "(uid, c) \<in> set es" and "inactive T now c" and "uclose c = Some err"
  shows "LogError ''Error closing inactive MCP client''
           [(''userID'', ArgString uid), (''error'', ArgError err)]
         \<in> set (logs (snd (cleanupLoop uclose T now es (cs, w))))"
  using assms
proof (induction es arbitrary: cs w)
  case Nil
  then show ?case by simp
next
  case (Cons e es)
  show ?case
  proof (cases "(uid, c) = e")
    case True
    let ?w3 = "closeInactive uclose now uid c w"
    have step: "cleanupLoop uclose T now (e # es) (cs, w) =
                cleanupLoop uclose T now es (AList.delete uid cs, ?w3)"
      using True Cons.prems(2) by auto
    obtain ls where "logs (snd (cleanupLoop uclose T now es (AList.delete uid cs, ?w3))) = logs ?w3 @ ls"
      using cleanupLoop_logs_grow by blast
    then show ?thesis
      using step Cons.prems(3) closeInactive_logs_error [of uclose c err uid now w] by simp
  next
    case False
    then have mem: "(uid, c) \<in> set es" using Cons.prems(1) by auto
    obtain uid' client where e: "e = (uid', client)" by (cases e)
    have "\<exists>cs' w'. cleanupLoop uclose T now (e # es) (cs, w) = cleanupLoop uclose T now es (cs', w')"
      using e by (cases "inactive T now client") auto
    then obtain cs' w' where
      "cleanupLoop uclose T now (e # es) (cs, w) = cleanupLoop uclose T now es (cs', w')" by blast
    then show ?thesis using Cons.IH [OF mem Cons.prems(2,3)] by simp
  qed
qed

lemma distinct_keys_filter:
  assumes "distinct (map fst cs)"
  shows "filter (\<lambda>e. fst e \<notin> fst ` {x \<in> set cs. P (snd x)}) cs = filter (\<lambda>e. \<not> P (snd e)) cs"
proof (rule filter_cong[OF refl])
  fix e assume e: "e \<in> set cs"
  show "(fst e \<notin> fst ` {x \<in> set cs. P (snd x)}) = (\<not> P (snd e))"
  proof
    assume "fst e \<notin> fst ` {x \<in> set cs. P (snd x)}"
    then show "\<not> P (snd e)" using e by force
  next
    assume np: "\<not> P (snd e)"
    show "fst e \<notin> fst ` {x \<in> set cs. P (snd x)}"
    proof
      assume "fst e \<in> fst ` {x \<in> set cs. P (snd x)}"
      then obtain x where x: "x \<in> set cs" "P (snd x)" "fst x = fst e" by auto
      from assms e x(1,3) have "x = e"
        by (metis eq_key_imp_eq_value prod.collapse)
      with x(2) np show False by simp
    qed
  qed
qed

lemma cleanupPass_parts:
  "cleanupPass uclose now m w =
     (m\<lparr>clients := fst (cleanupLoop uclose (clientTimeout m) now (clients m) (clients m, w))\<rparr>,
      snd (cleanupLoop uclose (clientTimeout m) now (clients m) (clients m, w)))"
  by (simp add: cleanupPass_def split: prod.splits)

lemma cleanupPass_clients:
  assumes "distinct (map fst (clients m))"
  shows "clients (fst (cleanupPass uclose now m w)) =
         filter (\<lambda>e. \<not> inactive (clientTimeout m) now (snd e)) (clients m)"
  using distinct_keys_filter [OF assms] by (simp add: cleanupPass_parts cleanupLoop_registry)

lemma cleanupPass_fields:
  "clientTimeout (fst (cleanupPass uclose now m w)) = clientTimeout m"
  "config (fst (cleanupPass uclose now m w)) = config m"
  "closeChan (fst (cleanupPass uclose now m w)) = closeChan m"
  "cleanupTicker (fst (cleanupPass uclose now m w)) = cleanupTicker m"
  by (simp_all add: cleanupPass_parts)

lemma cleanupPass_empty:
  assumes "clients m = []"
  shows "cleanupPass uclose now m w = (m, w)"
  using assms by (simp add: cleanupPass_def)

lemma cleanupPass_distinct:
  assumes "distinct (map fst (clients m))"
  shows "distinct (map fst (clients (fst (cleanupPass uclose now m w))))"
  using assms by (simp add: cleanupPass_clients distinct_map_filter)

lemma cleanupPass_keeps:
  assumes "distinct (map fst (clients m))" and "map_of (clients m) uid = Some c"
    and "\<not> inactive (clientTimeout m) now c"
  shows "map_of (clients (fst (cleanupPass uclose now m w))) uid = Some c"
proof -
  have "map_of (filter (\<lambda>e. \<not> inactive (clientTimeout m) now (snd e)) (clients m)) uid = Some c"
    using assms(1,2,3)
    by (metis (mono_tags, lifting) distinct_map_filter map_of_SomeD map_of_is_SomeI mem_Collect_eq set_filter snd_conv)
  then show ?thesis using assms(1) by (simp add: cleanupPass_clients)
qed

lemma cleanupPass_drops:
  assumes "distinct (map fst (clients m))" and "map_of (clients m) uid = Some c"
    and "inactive (clientTimeout m) now c"
  shows "map_of (clients (fst (cleanupPass uclose now m w))) uid = None"
proof -
  have "uid \<notin> fst ` set (filter (\<lambda>e. \<not> inactive (clientTimeout m) now (snd e)) (clients m))"
  proof
    assume "uid \<in> fst ` set (filter (\<lambda>e. \<not> inactive (clientTimeout m) now (snd e)) (clients m))"
    then obtain c' where c': "(uid, c') \<in> set (clients m)" "\<not> inactive (clientTimeout m) now c'"
      by auto
    have "map_of (clients m) uid = Some c'" using assms(1) c'(1) by simp
    then show False using assms(2,3) c'(2) by simp
  qed
  then have "map_of (filter (\<lambda>e. \<not> inactive (clientTimeout m) now (snd e)) (clients m)) uid = None"
    by (simp add: map_of_eq_None_iff)
  then show ?thesis using assms(1) by (simp add: cleanupPass_clients)
qed

lemma cleanupPasses_keeps:
  assumes "distinct (map fst (clients m))" and "map_of (clients m) uid = Some c"
    and "\<forall>now \<in> set ts. \<not> inactive (clientTimeout m) now c"
  shows "map_of (clients (fst (cleanupPasses uclose ts m w))) uid = Some c"
  using assms
proof (induction ts arbitrary: m w)
  case Nil
  then show ?case by simp
next
  case (Cons now ts)
  let ?m' = "fst (cleanupPass uclose now m w)"
  let ?w' = "snd (cleanupPass uclose now m w)"
  have d: "distinct (map fst (clients ?m'))"
    using Cons.prems(1) by (rule cleanupPass_distinct)
  have k: "map_of (clients ?m') uid = Some c"
    using Cons.prems by (intro cleanupPass_keeps) simp_all
  have t: "\<forall>now \<in> set ts. \<not> inactive (clientTimeout ?m') now c"
    using Cons.prems(3) by (simp add: cleanupPass_fields)
  have "cleanupPasses uclose (now # ts) m w = cleanupPasses uclose ts ?m' ?w'"
    by (simp add: split_beta)
  then show ?case using Cons.IH [OF d k t] by simp
qed


lemma GetTools_touch: "GetTools (touch t c) = GetTools c"
  by (simp add: GetTools_def touch_def)

lemma GetToolsForUser_existing:
  assumes "map_of (clients m) uid = Some c"
  shows "GetToolsForUser dial t uid m w =
         (Inr (GetTools c), m\<lparr>clients := AList.map_entry uid (touch t) (clients m)\<rparr>, w)"
  using assms by (simp add: GetToolsForUser_def getClientForUser_def GetTools_touch)

lemma map_of_touch_entry:
  assumes "map_of cs uid = Some c"
  shows "map_of (AList.map_entry uid (touch t) cs) uid = Some (c\<lparr>lastActivity := t\<rparr>)"
  using assms by (simp add: map_of_map_entry touch_def)

lemma map_of_touch_other:
  assumes "u \<noteq> uid"
  shows "map_of (AList.map_entry uid f cs) u = map_of cs u"
  using assms by (simp add: map_of_map_entry)

lemma closeOne_closed: "closed (snd (closeOne uclose uid client s)) = closed (snd s) @ [uid]"
  by (cases s) (simp add: closeOne_def Let_def split: option.splits)

lemma closeOne_err:
  "fst (closeOne uclose uid client s) = (case uclose client of Some e \<Rightarrow> Some e | None \<Rightarrow> fst s)"
  by (cases s) (simp add: closeOne_def Let_def split: option.splits)

lemma closeOne_logs_grow: "\<exists>l. logs (snd (closeOne uclose uid client s)) = logs (snd s) @ l"
  by (cases s) (simp add: closeOne_def Let_def split: option.splits)

lemma closeOne_logs_error:
  assumes "uclose client = Some err"
  shows "LogError ''Failed to close MCP client''
           [(''userID'', ArgString uid), (''error'', ArgError err)]
         \<in> set (logs (snd (closeOne uclose uid client s)))"
  using assms by (cases s) (simp add: closeOne_def Let_def)

lemma closeOne_other:
  "dialed (snd (closeOne uclose uid client s)) = dialed (snd s)"
  "cleanupTask (snd (closeOne uclose uid client s)) = cleanupTask (snd s)"
  by (cases s; simp add: closeOne_def Let_def split: option.splits)+

lemma closeLoop_closed:
  "closed (snd (closeLoop uclose es s)) = closed (snd s) @ map fst es"
proof (induction es arbitrary: s)
  case Nil
  then show ?case by simp
next
  case (Cons e es)
  obtain uid client where e: "e = (uid, client)" by (cases e)
  show ?case
    using Cons.IH [of "closeOne uclose uid client s"] e by (simp add: closeOne_closed)
qed

lemma closeLoop_other:
  "dialed (snd (closeLoop uclose es s)) = dialed (snd s)
   \<and> cleanupTask (snd (closeLoop uclose es s)) = cleanupTask (snd s)"
proof (induction es arbitrary: s)
  case Nil
  then show ?case by simp
next
  case (Cons e es)
  obtain uid client where e: "e = (uid, client)" by (cases e)
  show ?case
    using Cons.IH [of "closeOne uclose uid client s"] e by (simp add: closeOne_other)
qed

lemma closeLoop_err:
  "fst (closeLoop uclose es s) =
     (if List.map_filter (\<lambda>e. uclose (snd e)) es = [] then fst s
      else Some (last (List.map_filter (\<lambda>e. uclose (snd e)) es)))"
proof (induction es arbitrary: s)
  case Nil
  then show ?case by (simp add: List.map_filter_simps)
next
  case (Cons e es)
  obtain uid client where e: "e = (uid, client)" by (cases e)
  show ?case
    using Cons.IH [of "closeOne uclose uid client s"] e
    by (cases "uclose client") (auto simp: List.map_filter_simps closeOne_err)
qed

lemma closeLoop_logs_grow:
  "\<exists>ls. logs (snd (closeLoop uclose es s)) = logs (snd s) @ ls"
proof (induction es arbitrary: s)
  case Nil
  then show ?case by simp
next
  case (Cons e es)
  obtain uid client where e: "e = (uid, client)" by (cases e)
  obtain l0 where l0: "logs (snd (closeOne uclose uid client s)) = logs (snd s) @ l0"
    using closeOne_logs_grow by blast
  obtain ls where "logs (snd (closeLoop uclose es (closeOne uclose uid client s))) =
      logs (snd (closeOne uclose uid client s)) @ ls"
    using Cons.IH by blast
  then show ?case using e l0 by simp
qed

lemma closeLoop_logs_error:
  assumes "(uid, c) \<in> set es" and "uclose c = Some err"
  shows "LogError ''Failed to close MCP client''
           [(''userID'', ArgString uid), (''error'', ArgError err)]
         \<in> set (logs (snd (closeLoop uclose es s)))"
  using assms
proof (induction es arbitrary: s)
  case Nil
  then show ?case by simp
next
  case (Cons e es)
  show ?case
  proof (cases "(uid, c) = e")
    case True
    let ?s = "closeOne uclose uid c s"
    obtain ls where "logs (snd (closeLoop uclose es ?s)) = logs (snd ?s) @ ls"
      using closeLoop_logs_grow by blast
    then show ?thesis
      using True Cons.prems(2) closeOne_logs_error [of uclose c err uid s] by auto
  next
    case False
    then have mem: "(uid, c) \<in> set es" using Cons.prems(1) by auto
    obtain uid' client where e: "e = (uid', client)" by (cases e)
    show ?thesis using Cons.IH [OF mem Cons.prems(2)] e by simp
  qed
qed

lemma Close_result:
  assumes "\<not> closeChan m"
  shows "Close uclose m w =
    Inr (fst (closeLoop uclose (clients m) (None, w)),
         m\<lparr>closeChan := True, cleanupTicker := ticker_Stop (cleanupTicker m), clients := []\<rparr>,
         snd (closeLoop uclose (clients m) (None, w)))"
  using assms by (simp add: Close_def Let_def split: prod.splits)

lemma tickerFires_stopped:
  assumes "stopped (cleanupTicker m)"
  shows "tickerFires m = m"
  using assms by (simp add: tickerFires_def)

lemma background_after_teardown:
  assumes "clients m = []" and "closeChan m" and "stopped (cleanupTicker m)"
    and "background uclose es m w = Some (m', w')"
  shows "clients m' = [] \<and> closed w' = closed w \<and> logs w' = logs w \<and> dialed w' = dialed w
       \<and> closeChan m' \<and> stopped (cleanupTicker m')
       \<and> length (filter isPass es) \<le> (if pending (cleanupTicker m) then 1 else 0)"
  using assms
proof (induction es arbitrary: m w)
  case Nil
  then show ?case by simp
next
  case (Cons e es)
  show ?case
  proof (cases e)
    case TimerFires
    then show ?thesis
      using Cons.prems Cons.IH [of m w] by (simp add: tickerFires_stopped)
  next
    case (Select sc)
    show ?thesis
    proof (cases sc)
      case (TickerC now)
      let ?m1 = "m\<lparr>cleanupTicker := (cleanupTicker m)\<lparr>pending := False\<rparr>\<rparr>"
      from Cons.prems(4) Select TickerC
      have run: "cleanupTask w = Running" and p: "pending (cleanupTicker m)"
        by (auto simp: cleanupInactiveClients_def split: if_splits)
      have pass: "cleanupPass uclose now ?m1 w = (?m1, w)"
        using Cons.prems(1) by (simp add: cleanupPass_empty)
      have rest: "background uclose es ?m1 w = Some (m', w')"
        using Cons.prems(4) Select TickerC run p pass
        by (simp add: cleanupInactiveClients_def)
      have "clients m' = [] \<and> closed w' = closed w \<and> logs w' = logs w \<and> dialed w' = dialed w
         \<and> closeChan m' \<and> stopped (cleanupTicker m')
         \<and> length (filter isPass es) \<le> (if pending (cleanupTicker ?m1) then 1 else 0)"
        using Cons.prems(1,2,3) by (intro Cons.IH [OF _ _ _ rest]) simp_all
      then show ?thesis using Select TickerC p by simp
    next
      case CloseChan
      let ?m1 = "m\<lparr>cleanupTicker := ticker_Stop (cleanupTicker m)\<rparr>"
      let ?w1 = "w\<lparr>cleanupTask := Returned\<rparr>"
      from Cons.prems(4) Select CloseChan
      have rest: "background uclose es ?m1 ?w1 = Some (m', w')"
        by (auto simp: cleanupInactiveClients_def split: if_splits)
      have "clients m' = [] \<and> closed w' = closed ?w1 \<and> logs w' = logs ?w1 \<and> dialed w' = dialed ?w1
         \<and> closeChan m' \<and> stopped (cleanupTicker m')
         \<and> length (filter isPass es) \<le> (if pending (cleanupTicker ?m1) then 1 else 0)"
        using Cons.prems(1,2,3) by (intro Cons.IH [OF _ _ _ rest]) (simp_all add: ticker_Stop_def)
      then show ?thesis using Select CloseChan by (simp add: ticker_Stop_def)
    qed
  qed
qed

lemma background_returned:
  assumes "cleanupTask w \<noteq> Running" and "background uclose es m w = Some (m', w')"
  shows "filter isPass es = []"
  using assms
proof (induction es arbitrary: m)
  case Nil
  then show ?case by simp
next
  case (Cons e es)
  then show ?case
    by (cases e) (auto simp: cleanupInactiveClients_def)
qed

text \<open>
  C3. For a registry with distinct keys, one eviction pass at time \<open>now\<close> leaves exactly
  the entries that are not over the timeout, in their order; \<open>inactive\<close> is the code's
  comparison \<^verbatim>\<open>now.Sub(client.lastActivity) > m.clientTimeout\<close>, and for every timeout
  below the largest \<^verbatim>\<open>Duration\<close> (as every timeout set by \<^verbatim>\<open>NewClientManager\<close> is) it
  says that \<open>now - lastActivity\<close> strictly exceeds the timeout. A catalog lookup at time
  \<open>t\<close> for a user with an entry succeeds and sets that entry's \<open>lastActivity\<close> to
  \<open>t\<close>; the entry then survives every run of eviction passes at times that are not over
  the timeout counted from \<open>t\<close>, and is removed by a pass at a time that is.
\<close>

theorem idle_eviction:
  assumes "distinct (map fst (clients m))"
  shows "clients (fst (cleanupPass uclose now m w)) =
           filter (\<lambda>e. \<not> inactive (clientTimeout m) now (snd e)) (clients m)
    \<and> (sint (clientTimeout m) < 9223372036854775807 \<longrightarrow>
         (\<forall>c. inactive (clientTimeout m) now c = (sint (clientTimeout m) < now - lastActivity c)))
    \<and> (\<forall>c. map_of (clients m) uid = Some c \<longrightarrow>
         (case GetToolsForUser dial t uid m w of (r, m', w') \<Rightarrow>
            r = Inr (GetTools c)
            \<and> map_of (clients m') uid = Some (c\<lparr>lastActivity := t\<rparr>)
            \<and> clientTimeout m' = clientTimeout m
            \<and> (\<forall>ts. (\<forall>now' \<in> set ts. \<not> inactive (clientTimeout m) now' (c\<lparr>lastActivity := t\<rparr>)) \<longrightarrow>
                  map_of (clients (fst (cleanupPasses uclose ts m' w'))) uid
                    = Some (c\<lparr>lastActivity := t\<rparr>))
            \<and> (\<forall>now'. inactive (clientTimeout m) now' (c\<lparr>lastActivity := t\<rparr>) \<longrightarrow>
                  map_of (clients (fst (cleanupPass uclose now' m' w'))) uid = None)))"
proof (intro conjI allI impI)
  show "clients (fst (cleanupPass uclose now m w)) =
           filter (\<lambda>e. \<not> inactive (clientTimeout m) now (snd e)) (clients m)"
    using assms by (rule cleanupPass_clients)
next
  fix c assume "sint (clientTimeout m) < 9223372036854775807"
  then show "inactive (clientTimeout m) now c = (sint (clientTimeout m) < now - lastActivity c)"
    by (rule inactive_iff)
next
  fix c assume c: "map_of (clients m) uid = Some c"
  let ?m' = "m\<lparr>clients := AList.map_entry uid (touch t) (clients m)\<rparr>"
  let ?c' = "c\<lparr>lastActivity := t\<rparr>"
  have g: "GetToolsForUser dial t uid m w = (Inr (GetTools c), ?m', w)"
    using c by (rule GetToolsForUser_existing)
  have d: "distinct (map fst (clients ?m'))"
    using assms by (simp add: distinct_map_entry)
  have e: "map_of (clients ?m') uid = Some ?c'"
    using c by (simp add: map_of_touch_entry)
  have keeps: "map_of (clients (fst (cleanupPasses uclose ts ?m' w))) uid = Some ?c'"
    if "\<forall>now' \<in> set ts. \<not> inactive (clientTimeout m) now' ?c'" for ts
    using d e that by (intro cleanupPasses_keeps) simp_all
  have drops: "map_of (clients (fst (cleanupPass uclose now' ?m' w))) uid = None"
    if "inactive (clientTimeout m) now' ?c'" for now'
    using d e that by (intro cleanupPass_drops [where c = ?c']) simp_all
  show "case GetToolsForUser dial t uid m w of (r, m', w') \<Rightarrow>
            r = Inr (GetTools c)
            \<and> map_of (clients m') uid = Some ?c'
            \<and> clientTimeout m' = clientTimeout m
            \<and> (\<forall>ts. (\<forall>now' \<in> set ts. \<not> inactive (clientTimeout m) now' ?c') \<longrightarrow>
                  map_of (clients (fst (cleanupPasses uclose ts m' w'))) uid = Some ?c')
            \<and> (\<forall>now'. inactive (clientTimeout m) now' ?c' \<longrightarrow>
                  map_of (clients (fst (cleanupPass uclose now' m' w'))) uid = None)"
    unfolding g using e keeps drops by simp
qed

theorem idle_eviction_witness:
  "distinct (map fst (clients twoUsers))
   \<and> clients (fst (cleanupPass (failingFor ''u1'') 61000000000 twoUsers world0)) = []
   \<and> clients (fst (cleanupPass (failingFor ''u1'') 60000000000 twoUsers world0)) = clients twoUsers
   \<and> map_of (clients twoUsers) ''u2'' = Some (exampleClient ''u2'' 0)
   \<and> map_of (clients (fst (cleanupPasses (failingFor ''u1'') [61000000000, 110000000000]
         (fst (snd (GetToolsForUser noDial 50000000000 ''u2'' twoUsers world0))) world0))) ''u2''
       = Some (exampleClient ''u2'' 50000000000)
   \<and> map_of (clients (fst (cleanupPass (failingFor ''u1'') 110000000001
         (fst (snd (GetToolsForUser noDial 50000000000 ''u2'' twoUsers world0))) world0))) ''u2''
       = None"
proof -
  have d: "distinct (map fst (clients twoUsers))"
    by (simp add: twoUsers_def exampleManager_def)
  have c: "map_of (clients twoUsers) ''u2'' = Some (exampleClient ''u2'' 0)"
    by (simp add: twoUsers_def exampleManager_def)
  have T: "clientTimeout twoUsers = 60000000000"
    by (simp add: twoUsers_def exampleManager_def Minute_def)
  have i: "inactive 60000000000 now (exampleClient uid t) = (60000000000 < sint (time_Sub now t))"
    for now uid t
    by (simp add: inactive_def exampleClient_def)
  have s: "sint (time_Sub 61000000000 0) = 61000000000"
    "sint (time_Sub 60000000000 0) = 60000000000"
    "sint (time_Sub 61000000000 50000000000) = 11000000000"
    "sint (time_Sub 110000000000 50000000000) = 60000000000"
    "sint (time_Sub 110000000001 50000000000) = 60000000001"
    by (simp_all add: time_Sub_fits)
  have u: "(exampleClient ''u2'' 0)\<lparr>lastActivity := 50000000000\<rparr> = exampleClient ''u2'' 50000000000"
    by (simp add: exampleClient_def)
  note inst = idle_eviction [OF d, where uclose = "failingFor ''u1''" and w = world0
      and uid = "''u2''" and dial = noDial and t = 50000000000]
  let ?g = "GetToolsForUser noDial 50000000000 ''u2'' twoUsers world0"
  let ?c' = "exampleClient ''u2'' 50000000000"
  have w: "snd (snd ?g) = world0"
    using c by (simp add: GetToolsForUser_existing)
  have 1: "clients (fst (cleanupPass (failingFor ''u1'') 61000000000 twoUsers world0)) = []"
    using inst [where now = 61000000000, THEN conjunct1]
    by (simp add: twoUsers_def exampleManager_def Minute_def i s)
  have 2: "clients (fst (cleanupPass (failingFor ''u1'') 60000000000 twoUsers world0)) = clients twoUsers"
    using inst [where now = 60000000000, THEN conjunct1]
    by (simp add: twoUsers_def exampleManager_def Minute_def i s)
  have "case ?g of (r, m', w') \<Rightarrow>
      r = Inr (GetTools (exampleClient ''u2'' 0))
      \<and> map_of (clients m') ''u2'' = Some ?c'
      \<and> clientTimeout m' = clientTimeout twoUsers
      \<and> (\<forall>ts. (\<forall>now' \<in> set ts. \<not> inactive (clientTimeout twoUsers) now' ?c') \<longrightarrow>
            map_of (clients (fst (cleanupPasses (failingFor ''u1'') ts m' w'))) ''u2'' = Some ?c')
      \<and> (\<forall>now'. inactive (clientTimeout twoUsers) now' ?c' \<longrightarrow>
            map_of (clients (fst (cleanupPass (failingFor ''u1'') now' m' w'))) ''u2'' = None)"
    using inst [where now = 0, THEN conjunct2, THEN conjunct2, rule_format, OF c]
    by (simp only: u)
  then have k: "(\<forall>ts. (\<forall>now' \<in> set ts. \<not> inactive (clientTimeout twoUsers) now' ?c') \<longrightarrow>
            map_of (clients (fst (cleanupPasses (failingFor ''u1'') ts (fst (snd ?g)) world0))) ''u2''
              = Some ?c')
      \<and> (\<forall>now'. inactive (clientTimeout twoUsers) now' ?c' \<longrightarrow>
            map_of (clients (fst (cleanupPass (failingFor ''u1'') now' (fst (snd ?g)) world0))) ''u2''
              = None)"
    using w by (cases ?g) auto
  have 3: "map_of (clients (fst (cleanupPasses (failingFor ''u1'') [61000000000, 110000000000]
         (fst (snd ?g)) world0))) ''u2'' = Some ?c'"
  proof -
    have h: "\<forall>now' \<in> set [61000000000, 110000000000].
        \<not> inactive (clientTimeout twoUsers) now' ?c'"
      by (simp add: T i s)
    show ?thesis by (rule k [THEN conjunct1, THEN spec, THEN mp, OF h])
  qed
  have 4: "map_of (clients (fst (cleanupPass (failingFor ''u1'') 110000000001
         (fst (snd ?g)) world0))) ''u2'' = None"
  proof -
    have h: "inactive (clientTimeout twoUsers) 110000000001 ?c'"
      by (simp add: T i s)
    show ?thesis by (rule k [THEN conjunct2, THEN spec, THEN mp, OF h])
  qed
  show ?thesis using d c 1 2 3 4 by simp
qed

text \<open>
  C7. In an eviction pass over a registry with distinct keys, every entry over the
  timeout is closed (the calls to \<^verbatim>\<open>Close\<close> are exactly those entries, in the order
  of the scan, whatever the earlier calls returned), every such entry is gone from the
  registry afterwards whether or not closing it failed, a failure is written to the log
  as an error line, and the entries within the timeout stay.
\<close>

theorem eviction_close_failure:
  assumes "distinct (map fst (clients m))"
  shows "clients (fst (cleanupPass uclose now m w)) =
           filter (\<lambda>e. \<not> inactive (clientTimeout m) now (snd e)) (clients m)
    \<and> closed (snd (cleanupPass uclose now m w)) =
           closed w @ map fst (filter (\<lambda>e. inactive (clientTimeout m) now (snd e)) (clients m))
    \<and> (\<forall>e \<in> set (clients m). inactive (clientTimeout m) now (snd e) \<longrightarrow>
          map_of (clients (fst (cleanupPass uclose now m w))) (fst e) = None
          \<and> (\<forall>err. uclose (snd e) = Some err \<longrightarrow>
                LogError ''Error closing inactive MCP client''
                  [(''userID'', ArgString (fst e)), (''error'', ArgError err)]
                \<in> set (logs (snd (cleanupPass uclose now m w)))))"
proof (intro conjI ballI impI allI)
  show "clients (fst (cleanupPass uclose now m w)) =
           filter (\<lambda>e. \<not> inactive (clientTimeout m) now (snd e)) (clients m)"
    using assms by (rule cleanupPass_clients)
next
  show "closed (snd (cleanupPass uclose now m w)) =
           closed w @ map fst (filter (\<lambda>e. inactive (clientTimeout m) now (snd e)) (clients m))"
    by (simp add: cleanupPass_parts cleanupLoop_closed)
next
  fix e assume e: "e \<in> set (clients m)" and i: "inactive (clientTimeout m) now (snd e)"
  have "map_of (clients m) (fst e) = Some (snd e)"
    using assms e by simp
  then show "map_of (clients (fst (cleanupPass uclose now m w))) (fst e) = None"
    using assms i by (intro cleanupPass_drops [where c = "snd e"])
next
  fix e err
  assume e: "e \<in> set (clients m)" and i: "inactive (clientTimeout m) now (snd e)"
    and f: "uclose (snd e) = Some err"
  have "(fst e, snd e) \<in> set (clients m)" using e by simp
  then have "LogError ''Error closing inactive MCP client''
                  [(''userID'', ArgString (fst e)), (''error'', ArgError err)]
                \<in> set (logs (snd (cleanupLoop uclose (clientTimeout m) now (clients m)
                                     (clients m, w))))"
    using i f by (rule cleanupLoop_logs_error)
  then show "LogError ''Error closing inactive MCP client''
                  [(''userID'', ArgString (fst e)), (''error'', ArgError err)]
                \<in> set (logs (snd (cleanupPass uclose now m w)))"
    by (simp add: cleanupPass_parts)
qed

theorem eviction_close_failure_witness:
  "distinct (map fst (clients threeUsers))
   \<and> failingFor ''u1'' (exampleClient ''u1'' 0) = Some (Err ''broken pipe'')
   \<and> clients (fst (cleanupPass (failingFor ''u1'') 61000000000 threeUsers world0))
       = [(''u3'', exampleClient ''u3'' 50000000000)]
   \<and> closed (snd (cleanupPass (failingFor ''u1'') 61000000000 threeUsers world0)) = [''u1'', ''u2'']
   \<and> map_of (clients (fst (cleanupPass (failingFor ''u1'') 61000000000 threeUsers world0))) ''u1''
       = None
   \<and> LogError ''Error closing inactive MCP client''
        [(''userID'', ArgString ''u1''), (''error'', ArgError (Err ''broken pipe''))]
      \<in> set (logs (snd (cleanupPass (failingFor ''u1'') 61000000000 threeUsers world0)))"
proof -
  have d: "distinct (map fst (clients threeUsers))"
    by (simp add: threeUsers_def exampleManager_def)
  have f: "failingFor ''u1'' (exampleClient ''u1'' 0) = Some (Err ''broken pipe'')"
    by (simp add: failingFor_def failingWith_def exampleClient_def)
  have i: "inactive Minute now (exampleClient uid t) = (60000000000 < sint (time_Sub now t))"
    for now uid t
    by (simp add: inactive_def exampleClient_def Minute_def)
  have s: "sint (time_Sub 61000000000 0) = 61000000000"
    "sint (time_Sub 61000000000 50000000000) = 11000000000"
    by (simp_all add: time_Sub_fits)
  have m: "(''u1'', exampleClient ''u1'' 0) \<in> set (clients threeUsers)"
    by (simp add: threeUsers_def exampleManager_def)
  have i1: "inactive (clientTimeout threeUsers) 61000000000 (snd (''u1'', exampleClient ''u1'' 0))"
    by (simp add: threeUsers_def exampleManager_def i s)
  note inst = eviction_close_failure [OF d, where uclose = "failingFor ''u1''"
      and now = 61000000000 and w = world0]
  have 1: "clients (fst (cleanupPass (failingFor ''u1'') 61000000000 threeUsers world0))
       = [(''u3'', exampleClient ''u3'' 50000000000)]"
    using inst [THEN conjunct1] by (simp add: threeUsers_def exampleManager_def i s)
  have 2: "closed (snd (cleanupPass (failingFor ''u1'') 61000000000 threeUsers world0))
       = [''u1'', ''u2'']"
    using inst [THEN conjunct2, THEN conjunct1]
    by (simp add: threeUsers_def exampleManager_def i s world0_def)
  note e = inst [THEN conjunct2, THEN conjunct2, THEN bspec, OF m, THEN mp, OF i1]
  have 3: "map_of (clients (fst (cleanupPass (failingFor ''u1'') 61000000000 threeUsers world0))) ''u1''
       = None"
    using e [THEN conjunct1] by simp
  have 4: "LogError ''Error closing inactive MCP client''
        [(''userID'', ArgString ''u1''), (''error'', ArgError (Err ''broken pipe''))]
      \<in> set (logs (snd (cleanupPass (failingFor ''u1'') 61000000000 threeUsers world0)))"
    using e [THEN conjunct2, THEN spec, THEN mp, of "Err ''broken pipe''"] f by simp
  show ?thesis using d f 1 2 3 4 by simp
qed

text \<open>
  C6. On a manager whose close channel is still open, \<^verbatim>\<open>Close\<close> returns normally. It
  calls \<^verbatim>\<open>Close\<close> on every client of the registry, in the order of the scan; it
  returns the error of the last client that failed to close, or nil when none failed, and
  each failure is written to the log. Afterwards the registry is empty, the close channel
  is closed and the ticker is stopped, so that the timer sends no further tick, the
  goroutine returns when it takes the close case, and whatever the goroutine still does
  (at most one pass, for a tick sent before the ticker was stopped) closes no client,
  removes no entry and writes no log line. A second \<^verbatim>\<open>Close\<close> panics.
\<close>

theorem Close_teardown:
  assumes "\<not> closeChan m"
  shows "\<exists>lastErr m' w'. Close uclose m w = Inr (lastErr, m', w')
    \<and> closed w' = closed w @ map fst (clients m)
    \<and> lastErr = (if List.map_filter (\<lambda>e. uclose (snd e)) (clients m) = [] then None
                  else Some (last (List.map_filter (\<lambda>e. uclose (snd e)) (clients m))))
    \<and> (\<forall>e \<in> set (clients m). \<forall>err. uclose (snd e) = Some err \<longrightarrow>
          LogError ''Failed to close MCP client''
            [(''userID'', ArgString (fst e)), (''error'', ArgError err)] \<in> set (logs w'))
    \<and> clients m' = [] \<and> closeChan m' \<and> stopped (cleanupTicker m')
    \<and> tickerFires m' = m'
    \<and> cleanupTask w' = cleanupTask w
    \<and> (cleanupTask w' = Running \<longrightarrow>
          cleanupInactiveClients uc CloseChan m' w' = Some (m', w'\<lparr>cleanupTask := Returned\<rparr>))
    \<and> (\<forall>es m'' w''. background uc es m' w' = Some (m'', w'') \<longrightarrow>
          clients m'' = [] \<and> closed w'' = closed w' \<and> logs w'' = logs w'
          \<and> length (filter isPass es) \<le> 1)
    \<and> Close uc m' w' = Inl ''close of closed channel''"
proof -
  let ?le = "fst (closeLoop uclose (clients m) (None, w))"
  let ?w' = "snd (closeLoop uclose (clients m) (None, w))"
  let ?m' = "m\<lparr>closeChan := True, cleanupTicker := ticker_Stop (cleanupTicker m), clients := []\<rparr>"
  have r: "Close uclose m w = Inr (?le, ?m', ?w')"
    using assms by (rule Close_result)
  have c: "closed ?w' = closed w @ map fst (clients m)"
    by (simp add: closeLoop_closed)
  have l: "?le = (if List.map_filter (\<lambda>e. uclose (snd e)) (clients m) = [] then None
                  else Some (last (List.map_filter (\<lambda>e. uclose (snd e)) (clients m))))"
    by (simp add: closeLoop_err)
  have g: "\<forall>e \<in> set (clients m). \<forall>err. uclose (snd e) = Some err \<longrightarrow>
          LogError ''Failed to close MCP client''
            [(''userID'', ArgString (fst e)), (''error'', ArgError err)] \<in> set (logs ?w')"
    using closeLoop_logs_error [of _ _ "clients m" uclose] by auto
  have m': "clients ?m' = []" "closeChan ?m'" "stopped (cleanupTicker ?m')"
    by (simp_all add: ticker_Stop_def)
  have t: "tickerFires ?m' = ?m'"
    by (simp add: tickerFires_def ticker_Stop_def)
  have k: "cleanupTask ?w' = cleanupTask w"
    by (simp add: closeLoop_other)
  have ret: "cleanupTask ?w' = Running \<longrightarrow>
      cleanupInactiveClients uc CloseChan ?m' ?w' = Some (?m', ?w'\<lparr>cleanupTask := Returned\<rparr>)"
    by (simp add: cleanupInactiveClients_def ticker_Stop_def)
  have bg: "\<forall>es m'' w''. background uc es ?m' ?w' = Some (m'', w'') \<longrightarrow>
          clients m'' = [] \<and> closed w'' = closed ?w' \<and> logs w'' = logs ?w'
          \<and> length (filter isPass es) \<le> 1"
  proof (intro allI impI)
    fix es m'' w'' assume b: "background uc es ?m' ?w' = Some (m'', w'')"
    have "clients m'' = [] \<and> closed w'' = closed ?w' \<and> logs w'' = logs ?w' \<and> dialed w'' = dialed ?w'
       \<and> closeChan m'' \<and> stopped (cleanupTicker m'')
       \<and> length (filter isPass es) \<le> (if pending (cleanupTicker ?m') then 1 else 0)"
      using m' b by (rule background_after_teardown)
    then show "clients m'' = [] \<and> closed w'' = closed ?w' \<and> logs w'' = logs ?w'
          \<and> length (filter isPass es) \<le> 1"
      by (simp split: if_splits)
  qed
  have again: "Close uc ?m' ?w' = Inl ''close of closed channel''"
    by (simp add: Close_def)
  show ?thesis
    using r c l g m' t k ret bg again by blast
qed

theorem Close_teardown_witness:
  "\<not> closeChan threeUsers
   \<and> \<not> isl (Close (failingWith [(''u1'', ''e1''), (''u3'', ''e3'')]) threeUsers runningWorld)
   \<and> fst (projr (Close (failingWith [(''u1'', ''e1''), (''u3'', ''e3'')]) threeUsers runningWorld))
       = Some (Err ''e3'')
   \<and> closed (snd (snd (projr
         (Close (failingWith [(''u1'', ''e1''), (''u3'', ''e3'')]) threeUsers runningWorld))))
       = [''u1'', ''u3'', ''u2'']
   \<and> clients (fst (snd (projr
         (Close (failingWith [(''u1'', ''e1''), (''u3'', ''e3'')]) threeUsers runningWorld))))
       = []
   \<and> map_option (cleanupTask \<circ> snd)
        (cleanupInactiveClients (failingWith []) CloseChan
          (fst (snd (projr
            (Close (failingWith [(''u1'', ''e1''), (''u3'', ''e3'')]) threeUsers runningWorld))))
          (snd (snd (projr
            (Close (failingWith [(''u1'', ''e1''), (''u3'', ''e3'')]) threeUsers runningWorld)))))
       = Some Returned"
proof -
  let ?uclose = "failingWith [(''u1'', ''e1''), (''u3'', ''e3'')]"
  have o: "\<not> closeChan threeUsers"
    by (simp add: threeUsers_def exampleManager_def)
  obtain lastErr m' w' where r: "Close ?uclose threeUsers runningWorld = Inr (lastErr, m', w')"
    and c: "closed w' = closed runningWorld @ map fst (clients threeUsers)"
    and l: "lastErr =
      (if List.map_filter (\<lambda>e. ?uclose (snd e)) (clients threeUsers) = [] then None
       else Some (last (List.map_filter (\<lambda>e. ?uclose (snd e)) (clients threeUsers))))"
    and e: "clients m' = []"
    and k: "cleanupTask w' = cleanupTask runningWorld"
    and ret: "cleanupTask w' = Running \<longrightarrow>
      cleanupInactiveClients (failingWith []) CloseChan m' w'
        = Some (m', w'\<lparr>cleanupTask := Returned\<rparr>)"
    using Close_teardown [OF o, of ?uclose runningWorld "failingWith []"] by blast
  have c': "closed w' = [''u1'', ''u3'', ''u2'']"
    using c by (simp add: runningWorld_def world0_def threeUsers_def exampleManager_def)
  have l': "lastErr = Some (Err ''e3'')"
    using l by (simp add: threeUsers_def exampleManager_def exampleClient_def failingWith_def
        List.map_filter_simps)
  have k': "cleanupTask w' = Running"
    using k by (simp add: runningWorld_def)
  show ?thesis
    using o r c' l' e k' ret by simp
qed

section \<open>First access of a user\<close>

lemma ConnectToAllServers_userID:
  "userID (fst (snd (ConnectToAllServers dial servers c w))) = userID c
   \<and> lastActivity (fst (snd (ConnectToAllServers dial servers c w))) = lastActivity c"
proof (induction servers arbitrary: c w)
  case Nil
  then show ?case by simp
next
  case (Cons e servers)
  obtain server sc where e: "e = (server, sc)" by (cases e)
  show ?case
  proof (cases "dial (userID c) server sc")
    case (Inl err)
    then show ?thesis using e by (simp add: Let_def)
  next
    case (Inr tools)
    then show ?thesis using e Cons.IH by (simp add: Let_def)
  qed
qed

lemma ConnectToAllServers_error_iff:
  "(fst (ConnectToAllServers dial servers c w) = None) =
     (\<forall>e \<in> set servers. \<not> isl (dial (userID c) (fst e) (snd e)))"
proof (induction servers arbitrary: c w)
  case Nil
  then show ?case by simp
next
  case (Cons e servers)
  obtain server sc where e: "e = (server, sc)" by (cases e)
  show ?case
  proof (cases "dial (userID c) server sc")
    case (Inl err)
    then show ?thesis using e by (simp add: Let_def)
  next
    case (Inr tools)
    then show ?thesis using e Cons.IH by (simp add: Let_def)
  qed
qed

lemma ConnectToAllServers_dialed:
  "dialed (snd (snd (ConnectToAllServers dial servers c w))) =
     dialed w @ map (\<lambda>e. (userID c, fst e))
       (take (Suc (length (takeWhile (\<lambda>e. \<not> isl (dial (userID c) (fst e) (snd e))) servers)))
          servers)"
proof (induction servers arbitrary: c w)
  case Nil
  then show ?case by simp
next
  case (Cons e servers)
  obtain server sc where e: "e = (server, sc)" by (cases e)
  show ?case
  proof (cases "dial (userID c) server sc")
    case (Inl err)
    then show ?thesis using e by (simp add: Let_def)
  next
    case (Inr tools)
    then show ?thesis using e Cons.IH by (simp add: Let_def)
  qed
qed

lemma ConnectToAllServers_world:
  "logs (snd (snd (ConnectToAllServers dial servers c w))) = logs w
   \<and> closed (snd (snd (ConnectToAllServers dial servers c w))) = closed w
   \<and> cleanupTask (snd (snd (ConnectToAllServers dial servers c w))) = cleanupTask w"
proof (induction servers arbitrary: c w)
  case Nil
  then show ?case by simp
next
  case (Cons e servers)
  obtain server sc where e: "e = (server, sc)" by (cases e)
  show ?case
  proof (cases "dial (userID c) server sc")
    case (Inl err)
    then show ?thesis using e by (simp add: Let_def)
  next
    case (Inr tools)
    then show ?thesis using e Cons.IH by (simp add: Let_def)
  qed
qed

lemma createAndStoreUserClient_new:
  assumes "map_of (clients m) uid = None"
  shows "createAndStoreUserClient dial now uid m w =
    (case ConnectToAllServers dial (Servers (config m))
            \<lparr>serverConns = [], toolDefs = [], lastActivity = now, userID = uid\<rparr> w of
       (Some err, c, w') \<Rightarrow>
         (Inl (Errorf (''failed to initialize MCP client for user '' @ uid) err), m, w')
     | (None, c, w') \<Rightarrow> (Inr c, m\<lparr>clients := AList.update uid c (clients m)\<rparr>, w'))"
  using assms by (simp add: createAndStoreUserClient_def Let_def)

lemma createAndStoreUserClient_fails:
  assumes "map_of (clients m) uid = None"
    and "\<exists>e \<in> set (Servers (config m)). isl (dial uid (fst e) (snd e))"
  shows "\<exists>err. createAndStoreUserClient dial now uid m w =
    (Inl (Errorf (''failed to initialize MCP client for user '' @ uid) err), m,
     snd (snd (ConnectToAllServers dial (Servers (config m))
            \<lparr>serverConns = [], toolDefs = [], lastActivity = now, userID = uid\<rparr> w)))"
proof -
  let ?fresh = "\<lparr>serverConns = [], toolDefs = [], lastActivity = now, userID = uid\<rparr>"
  let ?r = "ConnectToAllServers dial (Servers (config m)) ?fresh w"
  have "fst ?r \<noteq> None"
    using assms(2) ConnectToAllServers_error_iff [where dial = dial and servers = "Servers (config m)"
        and c = ?fresh and w = w] by simp
  then obtain err where "fst ?r = Some err" by blast
  then show ?thesis
    using assms(1) by (cases ?r) (auto simp: createAndStoreUserClient_new)
qed

lemma createAndStoreUserClient_succeeds:
  assumes "map_of (clients m) uid = None"
    and "\<forall>e \<in> set (Servers (config m)). \<not> isl (dial uid (fst e) (snd e))"
  shows "createAndStoreUserClient dial now uid m w =
    (Inr (fst (snd (ConnectToAllServers dial (Servers (config m))
            \<lparr>serverConns = [], toolDefs = [], lastActivity = now, userID = uid\<rparr> w))),
     m\<lparr>clients := AList.update uid
         (fst (snd (ConnectToAllServers dial (Servers (config m))
            \<lparr>serverConns = [], toolDefs = [], lastActivity = now, userID = uid\<rparr> w)))
         (clients m)\<rparr>,
     snd (snd (ConnectToAllServers dial (Servers (config m))
            \<lparr>serverConns = [], toolDefs = [], lastActivity = now, userID = uid\<rparr> w)))"
proof -
  let ?fresh = "\<lparr>serverConns = [], toolDefs = [], lastActivity = now, userID = uid\<rparr>"
  let ?r = "ConnectToAllServers dial (Servers (config m)) ?fresh w"
  have "fst ?r = None"
    using assms(2) ConnectToAllServers_error_iff [where dial = dial and servers = "Servers (config m)"
        and c = ?fresh and w = w] by simp
  then show ?thesis
    using assms(1) by (cases ?r) (auto simp: createAndStoreUserClient_new)
qed

lemma GetToolsForUser_new:
  assumes "map_of (clients m) uid = None"
  shows "GetToolsForUser dial now uid m w =
    (case createAndStoreUserClient dial now uid m w of
       (Inl err, m', w') \<Rightarrow>
         (Inl (Errorf (''failed to get MCP client for user '' @ uid) err), m', w')
     | (Inr userClient, m', w') \<Rightarrow> (Inr (GetTools userClient), m', w'))"
  using assms by (simp add: GetToolsForUser_def getClientForUser_def)

lemma takeWhile_all:
  assumes "\<forall>e \<in> set xs. P e"
  shows "take (Suc (length (takeWhile P xs))) xs = xs"
  using assms by (simp add: takeWhile_eq_all_conv [THEN iffD2])

lemma GetToolsForUser_new_result:
  assumes "map_of (clients m) uid = None"
  shows "\<exists>r m' w'. GetToolsForUser dial now uid m w = (r, m', w')
     \<and> (\<exists>k>0. dialed w' = dialed w @ map (\<lambda>e. (uid, fst e)) (take k (Servers (config m))))
     \<and> ((\<forall>e \<in> set (Servers (config m)). \<not> isl (dial uid (fst e) (snd e))) \<longrightarrow>
           dialed w' = dialed w @ map (\<lambda>e. (uid, fst e)) (Servers (config m))
           \<and> (\<exists>c. r = Inr (GetTools c) \<and> map_of (clients m') uid = Some c
                  \<and> lastActivity c = now))
     \<and> ((\<exists>e \<in> set (Servers (config m)). isl (dial uid (fst e) (snd e))) \<longrightarrow>
           isl r \<and> m' = m)"
proof -
  let ?fresh = "\<lparr>serverConns = [], toolDefs = [], lastActivity = now, userID = uid\<rparr>"
  let ?srv = "Servers (config m)"
  let ?conn = "ConnectToAllServers dial ?srv ?fresh w"
  let ?w' = "snd (snd ?conn)"
  let ?k = "Suc (length (takeWhile (\<lambda>e. \<not> isl (dial uid (fst e) (snd e))) ?srv))"
  have d: "dialed ?w' = dialed w @ map (\<lambda>e. (uid, fst e)) (take ?k ?srv)"
    using ConnectToAllServers_dialed [where dial = dial and servers = ?srv and c = ?fresh and w = w]
    by simp
  show ?thesis
  proof (cases "\<forall>e \<in> set ?srv. \<not> isl (dial uid (fst e) (snd e))")
    case True
    let ?c = "fst (snd ?conn)"
    have g: "GetToolsForUser dial now uid m w =
        (Inr (GetTools ?c), m\<lparr>clients := AList.update uid ?c (clients m)\<rparr>, ?w')"
      using assms True by (simp add: GetToolsForUser_new createAndStoreUserClient_succeeds)
    have all: "take ?k ?srv = ?srv"
      using True by (intro takeWhile_all) simp
    have la: "lastActivity ?c = now"
      using ConnectToAllServers_userID [where dial = dial and servers = ?srv and c = ?fresh and w = w]
      by simp
    have "map_of (clients (m\<lparr>clients := AList.update uid ?c (clients m)\<rparr>)) uid = Some ?c"
      by (simp add: update_conv')
    then show ?thesis
      using g d all la True by (auto intro!: exI [where x = ?k])
  next
    case False
    then have f: "\<exists>e \<in> set ?srv. isl (dial uid (fst e) (snd e))" by simp
    obtain err where "createAndStoreUserClient dial now uid m w =
        (Inl (Errorf (''failed to initialize MCP client for user '' @ uid) err), m, ?w')"
      using assms f createAndStoreUserClient_fails [where m = m and uid = uid and dial = dial
          and now = now and w = w] by blast
    then have g: "GetToolsForUser dial now uid m w =
        (Inl (Errorf (''failed to get MCP client for user '' @ uid)
               (Errorf (''failed to initialize MCP client for user '' @ uid) err)), m, ?w')"
      using assms by (simp add: GetToolsForUser_new)
    show ?thesis
      using g d False by (auto intro!: exI [where x = ?k])
  qed
qed

text \<open>
  C2. For a user without an entry, when the dial of some configured server fails,
  \<^verbatim>\<open>GetToolsForUser\<close> returns an error and the manager it leaves is the one it was
  given: no entry for the user, and no other change. It has dialled a non-empty initial
  part of the configured servers. Whatever the servers answer at the next call for the
  same user (\<open>dial2\<close>), that call dials the configured servers again from the first
  one; when all of them answer, it dials each of them once, returns the catalog and
  stores the entry, and when one fails again it returns an error and leaves the manager
  as it was.
\<close>

theorem failed_connect_leaves_no_entry:
  assumes "map_of (clients m) uid = None"
    and "\<exists>e \<in> set (Servers (config m)). isl (dial uid (fst e) (snd e))"
  shows "\<exists>err w'. GetToolsForUser dial now uid m w = (Inl err, m, w')
    \<and> (\<exists>k>0. dialed w' = dialed w @ map (\<lambda>e. (uid, fst e)) (take k (Servers (config m))))
    \<and> (\<forall>dial2 now2. \<exists>r2 m2 w2. GetToolsForUser dial2 now2 uid m w' = (r2, m2, w2)
          \<and> (\<exists>k>0. dialed w2 = dialed w' @ map (\<lambda>e. (uid, fst e)) (take k (Servers (config m))))
          \<and> ((\<forall>e \<in> set (Servers (config m)). \<not> isl (dial2 uid (fst e) (snd e))) \<longrightarrow>
                dialed w2 = dialed w' @ map (\<lambda>e. (uid, fst e)) (Servers (config m))
                \<and> (\<exists>c. r2 = Inr (GetTools c) \<and> map_of (clients m2) uid = Some c
                       \<and> lastActivity c = now2))
          \<and> ((\<exists>e \<in> set (Servers (config m)). isl (dial2 uid (fst e) (snd e))) \<longrightarrow>
                isl r2 \<and> m2 = m))"
proof -
  obtain r m' w' where g: "GetToolsForUser dial now uid m w = (r, m', w')"
    and k: "\<exists>k>0. dialed w' = dialed w @ map (\<lambda>e. (uid, fst e)) (take k (Servers (config m)))"
    and f: "(\<exists>e \<in> set (Servers (config m)). isl (dial uid (fst e) (snd e))) \<longrightarrow> isl r \<and> m' = m"
    using GetToolsForUser_new_result [OF assms(1), of dial now w] by blast
  from f assms(2) obtain err where r: "r = Inl err" and m': "m' = m"
    by (cases r) auto
  have again: "\<forall>dial2 now2. \<exists>r2 m2 w2. GetToolsForUser dial2 now2 uid m w' = (r2, m2, w2)
          \<and> (\<exists>k>0. dialed w2 = dialed w' @ map (\<lambda>e. (uid, fst e)) (take k (Servers (config m))))
          \<and> ((\<forall>e \<in> set (Servers (config m)). \<not> isl (dial2 uid (fst e) (snd e))) \<longrightarrow>
                dialed w2 = dialed w' @ map (\<lambda>e. (uid, fst e)) (Servers (config m))
                \<and> (\<exists>c. r2 = Inr (GetTools c) \<and> map_of (clients m2) uid = Some c
                       \<and> lastActivity c = now2))
          \<and> ((\<exists>e \<in> set (Servers (config m)). isl (dial2 uid (fst e) (snd e))) \<longrightarrow>
                isl r2 \<and> m2 = m)"
    using GetToolsForUser_new_result [OF assms(1)] by blast
  show ?thesis
    using g r m' k again by blast
qed

lemma example_first_call:
  "GetToolsForUser (dialWith serverA) 5 ''u1'' (exampleManager []) world0 =
     (Inl (Err ''failed to get MCP client for user u1: failed to initialize MCP client for user u1: cannot reach b''),
      exampleManager [],
      world0\<lparr>dialed := [(''u1'', ''a''), (''u1'', ''b'')]\<rparr>)"
  by (simp add: GetToolsForUser_def getClientForUser_def createAndStoreUserClient_def
      exampleManager_def twoServers_def dialWith_def serverA_def world0_def Errorf_def Let_def
      registerTools_def)

lemma example_second_call:
  "fst (GetToolsForUser (dialWith serversAB) 9 ''u1'' (exampleManager [])
         (world0\<lparr>dialed := [(''u1'', ''a''), (''u1'', ''b'')]\<rparr>)) =
     Inr [(''x'', ''from b'', ''{}''), (''y'', ''only a'', ''{}'')]
   \<and> dialed (snd (snd (GetToolsForUser (dialWith serversAB) 9 ''u1'' (exampleManager [])
         (world0\<lparr>dialed := [(''u1'', ''a''), (''u1'', ''b'')]\<rparr>)))) =
     [(''u1'', ''a''), (''u1'', ''b''), (''u1'', ''a''), (''u1'', ''b'')]"
  by (simp add: GetToolsForUser_def getClientForUser_def createAndStoreUserClient_def
      exampleManager_def twoServers_def dialWith_def serversAB_def world0_def Errorf_def Let_def
      registerTools_def GetTools_def)

theorem failed_connect_leaves_no_entry_witness:
  "map_of (clients (exampleManager [])) ''u1'' = None
   \<and> isl (dialWith serverA ''u1'' ''b'' ''cmd-b'')
   \<and> isl (fst (GetToolsForUser (dialWith serverA) 5 ''u1'' (exampleManager []) world0))
   \<and> fst (snd (GetToolsForUser (dialWith serverA) 5 ''u1'' (exampleManager []) world0))
       = exampleManager []
   \<and> dialed (snd (snd (GetToolsForUser (dialWith serverA) 5 ''u1'' (exampleManager []) world0)))
       = [(''u1'', ''a''), (''u1'', ''b'')]
   \<and> fst (GetToolsForUser (dialWith serversAB) 9 ''u1'' (exampleManager [])
         (snd (snd (GetToolsForUser (dialWith serverA) 5 ''u1'' (exampleManager []) world0))))
       = Inr [(''x'', ''from b'', ''{}''), (''y'', ''only a'', ''{}'')]
   \<and> dialed (snd (snd (GetToolsForUser (dialWith serversAB) 9 ''u1'' (exampleManager [])
         (snd (snd (GetToolsForUser (dialWith serverA) 5 ''u1'' (exampleManager []) world0))))))
       = [(''u1'', ''a''), (''u1'', ''b''), (''u1'', ''a''), (''u1'', ''b'')]"
proof -
  have n: "map_of (clients (exampleManager [])) ''u1'' = None"
    by (simp add: exampleManager_def)
  have b: "isl (dialWith serverA ''u1'' ''b'' ''cmd-b'')"
    by (simp add: dialWith_def serverA_def)
  have f: "\<exists>e \<in> set (Servers (config (exampleManager []))).
      isl (dialWith serverA ''u1'' (fst e) (snd e))"
    using b by (simp add: exampleManager_def twoServers_def)
  obtain err w' where
    g: "GetToolsForUser (dialWith serverA) 5 ''u1'' (exampleManager []) world0
          = (Inl err, exampleManager [], w')"
    using failed_connect_leaves_no_entry [where m = "exampleManager []" and uid = "''u1''"
        and dial = "dialWith serverA" and now = 5 and w = world0, OF n f] by blast
  have w': "w' = world0\<lparr>dialed := [(''u1'', ''a''), (''u1'', ''b'')]\<rparr>"
    using g by (simp add: example_first_call)
  show ?thesis
    using n b g w' example_second_call by simp
qed

section \<open>The aggregated catalog\<close>

lemma registerTools_Nil: "registerTools server [] defs = defs"
  by (simp add: registerTools_def)

lemma registerTools_Cons:
  "registerTools server ((n, d, s) # tools) defs =
     registerTools server tools
       (AList.update n \<lparr>toolName = n, description = d, parameterSchema = s, session = server\<rparr> defs)"
  by (simp add: registerTools_def)

lemma map_of_registerTools_other:
  assumes "x \<notin> fst ` set tools"
  shows "map_of (registerTools server tools defs) x = map_of defs x"
  using assms
proof (induction tools arbitrary: defs)
  case Nil
  then show ?case by (simp add: registerTools_Nil)
next
  case (Cons t tools)
  obtain n d s where t: "t = (n, d, s)" by (cases t)
  then show ?case using Cons by (auto simp: registerTools_Cons update_conv')
qed

lemma map_of_registerTools_named:
  assumes "x \<in> fst ` set tools"
  shows "\<exists>td. map_of (registerTools server tools defs) x = Some td
           \<and> toolName td = x \<and> session td = server
           \<and> (x, description td, parameterSchema td) = last (filter (\<lambda>t. fst t = x) tools)"
  using assms
proof (induction tools arbitrary: defs)
  case Nil
  then show ?case by simp
next
  case (Cons t tools)
  obtain n d s where t: "t = (n, d, s)" by (cases t)
  let ?defs = "AList.update n
      \<lparr>toolName = n, description = d, parameterSchema = s, session = server\<rparr> defs"
  show ?case
  proof (cases "x \<in> fst ` set tools")
    case True
    then have "filter (\<lambda>t. fst t = x) tools \<noteq> []"
      by (auto simp: filter_empty_conv)
    then show ?thesis
      using Cons.IH [OF True, of ?defs] t by (auto simp: registerTools_Cons)
  next
    case False
    then have x: "x = n" using Cons.prems t by auto
    have "filter (\<lambda>t. fst t = x) tools = []"
      using False by (auto simp: filter_empty_conv)
    then show ?thesis
      using False t x
      by (simp add: registerTools_Cons map_of_registerTools_other update_conv')
  qed
qed

lemma set_update_cases:
  assumes "p \<in> set (AList.update k v al)"
  shows "p = (k, v) \<or> p \<in> set al"
  using assms by (induction al) (auto split: if_splits)

lemma registerTools_catalog:
  assumes "distinct (map fst defs)" and "\<forall>p \<in> set defs. toolName (snd p) = fst p"
  shows "distinct (map fst (registerTools server tools defs))
       \<and> (\<forall>p \<in> set (registerTools server tools defs). toolName (snd p) = fst p)"
  using assms
proof (induction tools arbitrary: defs)
  case Nil
  then show ?case by (simp add: registerTools_Nil)
next
  case (Cons t tools)
  obtain n d s where t: "t = (n, d, s)" by (cases t)
  let ?td = "\<lparr>toolName = n, description = d, parameterSchema = s, session = server\<rparr>"
  have 1: "distinct (map fst (AList.update n ?td defs))"
    using Cons.prems(1) by (rule distinct_update)
  have 2: "\<forall>p \<in> set (AList.update n ?td defs). toolName (snd p) = fst p"
    using Cons.prems(2) set_update_cases [of _ n ?td defs] by fastforce
  show ?case using Cons.IH [OF 1 2] t by (simp add: registerTools_Cons)
qed

lemma ConnectToAllServers_catalog:
  assumes "distinct (map fst (toolDefs c))" and "\<forall>p \<in> set (toolDefs c). toolName (snd p) = fst p"
  shows "distinct (map fst (toolDefs (fst (snd (ConnectToAllServers dial servers c w)))))
       \<and> (\<forall>p \<in> set (toolDefs (fst (snd (ConnectToAllServers dial servers c w)))).
             toolName (snd p) = fst p)"
  using assms
proof (induction servers arbitrary: c w)
  case Nil
  then show ?case by simp
next
  case (Cons e servers)
  obtain server sc where e: "e = (server, sc)" by (cases e)
  show ?case
  proof (cases "dial (userID c) server sc")
    case (Inl err)
    then show ?thesis using e Cons.prems by (simp add: Let_def)
  next
    case (Inr tools)
    let ?c1 = "c\<lparr>serverConns :=
                   AList.update server
                     \<lparr>connServer = server, connUser = userID c, advertised = tools\<rparr>
                     (serverConns c),
                 toolDefs := registerTools server tools (toolDefs c)\<rparr>"
    have 1: "distinct (map fst (toolDefs ?c1))"
      and 2: "\<forall>p \<in> set (toolDefs ?c1). toolName (snd p) = fst p"
      using registerTools_catalog [OF Cons.prems, of server tools] by simp_all
    show ?thesis
      using Cons.IH [OF 1 2] e Inr by (simp add: Let_def)
  qed
qed

lemma ConnectToAllServers_entry_kept:
  assumes "\<forall>e \<in> set servers. \<not> isl (dial (userID c) (fst e) (snd e))"
    and "\<forall>e \<in> set servers. x \<notin> fst ` set (projr (dial (userID c) (fst e) (snd e)))"
  shows "map_of (toolDefs (fst (snd (ConnectToAllServers dial servers c w)))) x
         = map_of (toolDefs c) x"
  using assms
proof (induction servers arbitrary: c w)
  case Nil
  then show ?case by simp
next
  case (Cons e servers)
  obtain server sc where e: "e = (server, sc)" by (cases e)
  from Cons.prems(1) e obtain tools where d: "dial (userID c) server sc = Inr tools"
    by (cases "dial (userID c) server sc") auto
  let ?c1 = "c\<lparr>serverConns :=
                 AList.update server
                   \<lparr>connServer = server, connUser = userID c, advertised = tools\<rparr>
                   (serverConns c),
               toolDefs := registerTools server tools (toolDefs c)\<rparr>"
  have x: "x \<notin> fst ` set tools" using Cons.prems(2) e d by simp
  have "map_of (toolDefs (fst (snd (ConnectToAllServers dial servers ?c1
            (w\<lparr>dialed := dialed w @ [(userID c, server)]\<rparr>))))) x = map_of (toolDefs ?c1) x"
    using Cons.prems by (intro Cons.IH) simp_all
  then show ?case
    using e d x by (simp add: Let_def map_of_registerTools_other)
qed

lemma ConnectToAllServers_entry_last:
  assumes "\<forall>e \<in> set servers. \<not> isl (dial (userID c) (fst e) (snd e))"
    and "filter (\<lambda>e. x \<in> fst ` set (projr (dial (userID c) (fst e) (snd e)))) servers \<noteq> []"
  shows "\<exists>td. map_of (toolDefs (fst (snd (ConnectToAllServers dial servers c w)))) x = Some td
     \<and> toolName td = x
     \<and> session td =
         fst (last (filter (\<lambda>e. x \<in> fst ` set (projr (dial (userID c) (fst e) (snd e)))) servers))"
  using assms
proof (induction servers arbitrary: c w)
  case Nil
  then show ?case by simp
next
  case (Cons e servers)
  obtain server sc where e: "e = (server, sc)" by (cases e)
  from Cons.prems(1) e obtain tools where d: "dial (userID c) server sc = Inr tools"
    by (cases "dial (userID c) server sc") auto
  let ?c1 = "c\<lparr>serverConns :=
                 AList.update server
                   \<lparr>connServer = server, connUser = userID c, advertised = tools\<rparr>
                   (serverConns c),
               toolDefs := registerTools server tools (toolDefs c)\<rparr>"
  let ?w1 = "w\<lparr>dialed := dialed w @ [(userID c, server)]\<rparr>"
  let ?P = "\<lambda>e. x \<in> fst ` set (projr (dial (userID c) (fst e) (snd e)))"
  have step: "ConnectToAllServers dial (e # servers) c w = ConnectToAllServers dial servers ?c1 ?w1"
    using e d by (simp add: Let_def)
  have ok: "\<forall>e \<in> set servers. \<not> isl (dial (userID ?c1) (fst e) (snd e))"
    using Cons.prems(1) by simp
  show ?case
  proof (cases "filter ?P servers = []")
    case False
    then have "filter (\<lambda>e. x \<in> fst ` set (projr (dial (userID ?c1) (fst e) (snd e)))) servers \<noteq> []"
      by simp
    from Cons.IH [OF ok this, of ?w1] show ?thesis
      using step False by simp
  next
    case True
    then have none: "\<forall>e \<in> set servers. x \<notin> fst ` set (projr (dial (userID ?c1) (fst e) (snd e)))"
      by (simp add: filter_empty_conv)
    have here: "x \<in> fst ` set tools"
      using Cons.prems(2) True e d by (simp split: if_splits)
    have "map_of (toolDefs (fst (snd (ConnectToAllServers dial servers ?c1 ?w1)))) x
        = map_of (toolDefs ?c1) x"
      using ok none by (rule ConnectToAllServers_entry_kept)
    moreover obtain td where "map_of (registerTools server tools (toolDefs c)) x = Some td"
      "toolName td = x" "session td = server"
      using map_of_registerTools_named [OF here] by blast
    ultimately show ?thesis
      using step True here e d by simp
  qed
qed

lemma last_filter_nth:
  assumes "j < length xs" and "P (xs ! j)" and "\<forall>k. j < k \<and> k < length xs \<longrightarrow> \<not> P (xs ! k)"
  shows "last (filter P xs) = xs ! j"
proof -
  have xs: "xs = take j xs @ xs ! j # drop (Suc j) xs"
    using assms(1) by (rule id_take_nth_drop)
  have "\<forall>y \<in> set (drop (Suc j) xs). \<not> P y"
  proof
    fix y assume "y \<in> set (drop (Suc j) xs)"
    then obtain i where i: "i < length (drop (Suc j) xs)" "y = drop (Suc j) xs ! i"
      by (auto simp: in_set_conv_nth)
    then have "y = xs ! (Suc j + i)" "Suc j + i < length xs" by auto
    then show "\<not> P y" using assms(3) by simp
  qed
  then have "filter P (drop (Suc j) xs) = []" by (simp add: filter_empty_conv)
  then have "filter P xs = filter P (take j xs) @ [xs ! j]"
    using assms(2) by (subst xs) simp
  then show ?thesis by simp
qed

lemma distinct_one_key:
  assumes "distinct ks" and "x \<in> set ks"
  shows "length (filter (\<lambda>k. k = x) ks) = 1"
  using assms
proof (induction ks)
  case Nil
  then show ?case by simp
next
  case (Cons k ks)
  show ?case
  proof (cases "k = x")
    case True
    then have "x \<notin> set ks" using Cons.prems(1) by simp
    then have "filter (\<lambda>k. k = x) ks = []" by (auto simp: filter_empty_conv)
    then show ?thesis using True by simp
  next
    case False
    then show ?thesis using Cons by simp
  qed
qed

lemma exactly_one_named:
  assumes "distinct (map fst defs)" and "\<forall>p \<in> set defs. toolName (snd p) = fst p"
    and "map_of defs x = Some td"
  shows "length (filter (\<lambda>t. fst t = x)
           (map (\<lambda>(n, td). (toolName td, description td, parameterSchema td)) defs)) = 1"
proof -
  have "filter (\<lambda>t. fst t = x)
           (map (\<lambda>(n, td). (toolName td, description td, parameterSchema td)) defs)
      = map (\<lambda>(n, td). (toolName td, description td, parameterSchema td))
          (filter (\<lambda>p. fst p = x) defs)"
    using assms(2) by (induction defs) auto
  moreover have "length (filter (\<lambda>p. fst p = x) defs) = 1"
  proof -
    have "length (filter (\<lambda>p. fst p = x) defs) = length (filter (\<lambda>k. k = x) (map fst defs))"
      by (induction defs) auto
    also have "\<dots> = 1"
    proof (rule distinct_one_key [OF assms(1)])
      show "x \<in> set (map fst defs)"
        using map_of_SomeD [OF assms(3)] by force
    qed
    finally show ?thesis .
  qed
  ultimately show ?thesis by simp
qed

text \<open>
  C9. A user without an entry asks for the catalog, every configured server answers,
  and the servers at positions \<open>i < j\<close> of the iteration both advertise a tool named
  \<open>x\<close>. Then the catalog returned has exactly one tool named \<open>x\<close>, and the catalog
  entry under \<open>x\<close> is bound to the last server of the iteration that advertises \<open>x\<close>:
  to the server at \<open>j\<close> when no later one advertises \<open>x\<close>, which is not the server at
  \<open>i\<close> (server names being distinct).
\<close>

theorem later_server_overwrites:
  assumes "map_of (clients m) uid = None"
    and "\<forall>e \<in> set (Servers (config m)). \<not> isl (dial uid (fst e) (snd e))"
    and "i < j" and "j < length (Servers (config m))"
    and "x \<in> fst ` set (projr (dial uid (fst (Servers (config m) ! i)) (snd (Servers (config m) ! i))))"
    and "x \<in> fst ` set (projr (dial uid (fst (Servers (config m) ! j)) (snd (Servers (config m) ! j))))"
  shows "\<exists>c m' w'. GetToolsForUser dial now uid m w = (Inr (GetTools c), m', w')
    \<and> map_of (clients m') uid = Some c
    \<and> length (filter (\<lambda>t. fst t = x) (GetTools c)) = 1
    \<and> (\<exists>td. map_of (toolDefs c) x = Some td \<and> toolName td = x
          \<and> session td =
              fst (last (filter (\<lambda>e. x \<in> fst ` set (projr (dial uid (fst e) (snd e))))
                          (Servers (config m))))
          \<and> ((\<forall>k. j < k \<and> k < length (Servers (config m)) \<longrightarrow>
                 x \<notin> fst ` set (projr (dial uid (fst (Servers (config m) ! k))
                                                 (snd (Servers (config m) ! k)))))
               \<longrightarrow> session td = fst (Servers (config m) ! j)
                   \<and> (distinct (map fst (Servers (config m))) \<longrightarrow>
                        session td \<noteq> fst (Servers (config m) ! i))))"
proof -
  let ?srv = "Servers (config m)"
  let ?fresh = "\<lparr>serverConns = [], toolDefs = [], lastActivity = now, userID = uid\<rparr>"
  let ?conn = "ConnectToAllServers dial ?srv ?fresh w"
  let ?c = "fst (snd ?conn)"
  let ?m' = "m\<lparr>clients := AList.update uid ?c (clients m)\<rparr>"
  let ?P = "\<lambda>e. x \<in> fst ` set (projr (dial uid (fst e) (snd e)))"
  have g: "GetToolsForUser dial now uid m w = (Inr (GetTools ?c), ?m', snd (snd ?conn))"
    using assms(1,2) by (simp add: GetToolsForUser_new createAndStoreUserClient_succeeds)
  have e: "map_of (clients ?m') uid = Some ?c"
    by (simp add: update_conv')
  have cat: "distinct (map fst (toolDefs ?c))" "\<forall>p \<in> set (toolDefs ?c). toolName (snd p) = fst p"
    using ConnectToAllServers_catalog [where c = ?fresh and dial = dial and servers = ?srv and w = w]
    by simp_all
  have jmem: "?srv ! j \<in> set ?srv" using assms(4) by simp
  then have holders: "filter ?P ?srv \<noteq> []"
    using assms(6) by (auto simp: filter_empty_conv)
  obtain td where td: "map_of (toolDefs ?c) x = Some td" "toolName td = x"
    "session td = fst (last (filter ?P ?srv))"
    using ConnectToAllServers_entry_last [where c = ?fresh and dial = dial and servers = ?srv
        and w = w and x = x] assms(2) holders by auto
  have one: "length (filter (\<lambda>t. fst t = x) (GetTools ?c)) = 1"
    unfolding GetTools_def using cat td(1) by (rule exactly_one_named)
  have later: "session td = fst (?srv ! j) \<and> (distinct (map fst ?srv) \<longrightarrow> session td \<noteq> fst (?srv ! i))"
    if none: "\<forall>k. j < k \<and> k < length ?srv \<longrightarrow> \<not> ?P (?srv ! k)"
  proof -
    have "last (filter ?P ?srv) = ?srv ! j"
      using assms(4,6) none by (intro last_filter_nth) simp_all
    then have s: "session td = fst (?srv ! j)" using td(3) by simp
    have "fst (?srv ! j) \<noteq> fst (?srv ! i)" if "distinct (map fst ?srv)"
      using that assms(3,4) by (auto simp: distinct_conv_nth)
    then show ?thesis using s by simp
  qed
  show ?thesis
    using g e one td later by blast
qed

theorem later_server_overwrites_witness:
  "map_of (clients (exampleManager [])) ''u1'' = None
   \<and> Servers (config (exampleManager [])) = [(''a'', ''cmd-a''), (''b'', ''cmd-b'')]
   \<and> dialWith serversAB ''u1'' ''a'' ''cmd-a'' = Inr [(''x'', ''from a'', ''{}''), (''y'', ''only a'', ''{}'')]
   \<and> dialWith serversAB ''u1'' ''b'' ''cmd-b'' = Inr [(''x'', ''from b'', ''{}'')]
   \<and> fst (GetToolsForUser (dialWith serversAB) 9 ''u1'' (exampleManager []) world0)
       = Inr [(''x'', ''from b'', ''{}''), (''y'', ''only a'', ''{}'')]
   \<and> map_option session
        (map_of (toolDefs (the (map_of (clients (fst (snd
           (GetToolsForUser (dialWith serversAB) 9 ''u1'' (exampleManager []) world0)))) ''u1'')))
           ''x'')
       = Some ''b''"
proof -
  let ?m = "exampleManager []"
  let ?dial = "dialWith serversAB"
  have n: "map_of (clients ?m) ''u1'' = None"
    by (simp add: exampleManager_def)
  have srv: "Servers (config ?m) = [(''a'', ''cmd-a''), (''b'', ''cmd-b'')]"
    by (simp add: exampleManager_def twoServers_def)
  have a: "?dial ''u1'' ''a'' ''cmd-a'' = Inr [(''x'', ''from a'', ''{}''), (''y'', ''only a'', ''{}'')]"
    and b: "?dial ''u1'' ''b'' ''cmd-b'' = Inr [(''x'', ''from b'', ''{}'')]"
    by (simp_all add: dialWith_def serversAB_def)
  have ok: "\<forall>e \<in> set (Servers (config ?m)). \<not> isl (?dial ''u1'' (fst e) (snd e))"
    by (simp add: srv a b)
  have ij: "(0::nat) < 1" "1 < length (Servers (config ?m))"
    by (simp_all add: srv)
  have xi: "''x'' \<in> fst ` set (projr (?dial ''u1'' (fst (Servers (config ?m) ! 0))
                                                  (snd (Servers (config ?m) ! 0))))"
    by (simp add: srv a)
  have xj: "''x'' \<in> fst ` set (projr (?dial ''u1'' (fst (Servers (config ?m) ! 1))
                                                  (snd (Servers (config ?m) ! 1))))"
    by (simp add: srv b)
  have last: "\<forall>k. 1 < k \<and> k < length (Servers (config ?m)) \<longrightarrow>
      ''x'' \<notin> fst ` set (projr (?dial ''u1'' (fst (Servers (config ?m) ! k))
                                                (snd (Servers (config ?m) ! k))))"
    unfolding srv by auto
  obtain c m' w' td where
    g: "GetToolsForUser ?dial 9 ''u1'' ?m world0 = (Inr (GetTools c), m', w')"
    and e: "map_of (clients m') ''u1'' = Some c"
    and td: "map_of (toolDefs c) ''x'' = Some td"
    and s: "session td = fst (Servers (config ?m) ! 1)"
    using later_server_overwrites [where m = ?m and uid = "''u1''" and dial = ?dial and i = 0
        and j = 1 and x = "''x''" and now = 9 and w = world0, OF n ok ij xi xj] last
    by blast
  have tools: "fst (GetToolsForUser ?dial 9 ''u1'' ?m world0)
       = Inr [(''x'', ''from b'', ''{}''), (''y'', ''only a'', ''{}'')]"
    by (simp add: GetToolsForUser_def getClientForUser_def createAndStoreUserClient_def
      exampleManager_def twoServers_def dialWith_def serversAB_def world0_def Let_def
      registerTools_def GetTools_def)
  show ?thesis
    using n srv a b tools g e td s by simp
qed

section \<open>Tool call approval\<close>

lemma length_toolLoop: "length (toolLoop resolve accepted i tools) = length tools"
  by (induction tools arbitrary: i) simp_all

lemma nth_toolLoop:
  assumes "k < length tools"
  shows "toolLoop resolve accepted i tools ! k = resolveOne resolve accepted (i + k) (tools ! k)"
  using assms
proof (induction tools arbitrary: i k)
  case Nil
  then show ?case by simp
next
  case (Cons tc tools)
  then show ?case by (cases k) simp_all
qed

lemma resolveOne_success:
  "(Status (resolveOne resolve accepted i tc) = ToolCallStatusSuccess) =
     (ID tc \<in> set accepted \<and> \<not> isl (resolve i tc))"
  by (cases "resolve i tc") (simp_all add: resolveOne_def)

lemma toolLoop_success:
  "list_ex (\<lambda>tc. Status tc = ToolCallStatusSuccess) (toolLoop resolve accepted 0 tools) =
     (\<exists>k < length tools. ID (tools ! k) \<in> set accepted \<and> \<not> isl (resolve k (tools ! k)))"
proof -
  have "list_ex (\<lambda>tc. Status tc = ToolCallStatusSuccess) (toolLoop resolve accepted 0 tools) =
      (\<exists>k < length (toolLoop resolve accepted 0 tools).
          Status (toolLoop resolve accepted 0 tools ! k) = ToolCallStatusSuccess)"
    by (simp add: list_ex_length)
  then show ?thesis
    by (auto simp: length_toolLoop nth_toolLoop resolveOne_success)
qed

lemma HandleToolCall_decoded:
  assumes "GetBotByID env" and "UserGet env = None" and "ToolCallProp env = PropString js"
    and "Unmarshal env js = Inr tools0"
  shows "HandleToolCall env accepted =
    (let tools = toolLoop (ResolveTool env) accepted 0 tools0
     in case Marshal env tools of
          Inl err \<Rightarrow> (Inr (Some (Errorf ''failed to marshal tool call results'' err)), [])
        | Inr resolvedToolsJSON \<Rightarrow>
           (case UpdatePost env of
              Some updateErr \<Rightarrow>
                (Inr (Some (Errorf ''failed to update post with tool call results'' updateErr)),
                 [CallUpdatePost resolvedToolsJSON])
            | None \<Rightarrow>
               if \<not> list_ex (\<lambda>tc. Status tc = ToolCallStatusSuccess) tools
               then (Inr None, [CallUpdatePost resolvedToolsJSON])
               else case GetThreadData env of
                 Some err \<Rightarrow>
                   (Inr (Some (Errorf ''failed to get previous conversation'' err)),
                    [CallUpdatePost resolvedToolsJSON, CallGetThreadData])
               | None \<Rightarrow>
                  (case existingConversationToLLMPosts env of
                     Some err \<Rightarrow>
                       (Inr (Some (Errorf
                          ''failed to convert existing conversation to LLM posts'' err)),
                        [CallUpdatePost resolvedToolsJSON, CallGetThreadData])
                   | None \<Rightarrow>
                      (case ChatCompletion env of
                         Some err \<Rightarrow>
                           (Inr (Some (Errorf ''failed to get chat completion'' err)),
                            [CallUpdatePost resolvedToolsJSON, CallGetThreadData,
                             CallChatCompletion])
                       | None \<Rightarrow>
                          (case StreamToNewPost env of
                             Some err \<Rightarrow>
                               (Inr (Some (Errorf
                                  ''failed to stream result to new post'' err)),
                                [CallUpdatePost resolvedToolsJSON, CallGetThreadData,
                                 CallChatCompletion, CallStreamToNewPost])
                           | None \<Rightarrow>
                               (Inr None,
                                [CallUpdatePost resolvedToolsJSON, CallGetThreadData,
                                 CallChatCompletion, CallStreamToNewPost]))))))"
  using assms by (simp add: HandleToolCall_def)

lemma completion_only_after_success:
  assumes "GetBotByID env" and "UserGet env = None" and "ToolCallProp env = PropString js"
    and "Unmarshal env js = Inr tools"
    and "CallChatCompletion \<in> set (snd (HandleToolCall env accepted))"
  shows "list_ex (\<lambda>tc. Status tc = ToolCallStatusSuccess)
           (toolLoop (ResolveTool env) accepted 0 tools)"
  using assms(5) unfolding HandleToolCall_decoded [OF assms(1-4)]
  by (auto simp: Let_def split: sum.splits option.splits if_splits)

lemma completion_after_success:
  assumes "GetBotByID env" and "UserGet env = None" and "ToolCallProp env = PropString js"
    and "Unmarshal env js = Inr tools"
    and "\<not> isl (Marshal env (toolLoop (ResolveTool env) accepted 0 tools))"
    and "UpdatePost env = None" and "GetThreadData env = None"
    and "existingConversationToLLMPosts env = None"
    and "list_ex (\<lambda>tc. Status tc = ToolCallStatusSuccess)
           (toolLoop (ResolveTool env) accepted 0 tools)"
  shows "CallChatCompletion \<in> set (snd (HandleToolCall env accepted))"
  using assms(5-9) unfolding HandleToolCall_decoded [OF assms(1-4)]
  by (auto simp: Let_def split: sum.splits option.splits if_splits)

text \<open>
  C8, as amended. \<^verbatim>\<open>HandleToolCall\<close> has found the bot and the user and has decoded the
  pending tool calls. Every call of the batch is processed, each on its own: an accepted
  call whose resolution fails gets the result text \<^verbatim>\<open>Tool call failed\<close> and the error
  status, an accepted call that resolves gets its result and the success status, and a
  call that was not accepted is marked rejected. The handler requests a completion only
  if some call of the batch resolved successfully; and when marshalling the results,
  updating the post, reading the thread and converting the conversation all succeed, it
  requests a completion if and only if some call resolved successfully.
\<close>

theorem tool_failures_do_not_abort:
  assumes "GetBotByID env" and "UserGet env = None" and "ToolCallProp env = PropString js"
    and "Unmarshal env js = Inr tools"
  shows "length (toolLoop (ResolveTool env) accepted 0 tools) = length tools
    \<and> (\<forall>k < length tools.
          (ID (tools ! k) \<in> set accepted \<and> isl (ResolveTool env k (tools ! k)) \<longrightarrow>
             toolLoop (ResolveTool env) accepted 0 tools ! k =
               (tools ! k)\<lparr>Result := ''Tool call failed'', Status := ToolCallStatusError\<rparr>)
        \<and> (ID (tools ! k) \<in> set accepted \<and> \<not> isl (ResolveTool env k (tools ! k)) \<longrightarrow>
             toolLoop (ResolveTool env) accepted 0 tools ! k =
               (tools ! k)\<lparr>Result := projr (ResolveTool env k (tools ! k)),
                           Status := ToolCallStatusSuccess\<rparr>)
        \<and> (ID (tools ! k) \<notin> set accepted \<longrightarrow>
             toolLoop (ResolveTool env) accepted 0 tools ! k =
               (tools ! k)\<lparr>Result := ''Tool call rejected by user'',
                           Status := ToolCallStatusRejected\<rparr>))
    \<and> (CallChatCompletion \<in> set (snd (HandleToolCall env accepted)) \<longrightarrow>
          (\<exists>k < length tools. ID (tools ! k) \<in> set accepted
                \<and> \<not> isl (ResolveTool env k (tools ! k))))
    \<and> (\<not> isl (Marshal env (toolLoop (ResolveTool env) accepted 0 tools))
        \<and> UpdatePost env = None \<and> GetThreadData env = None
        \<and> existingConversationToLLMPosts env = None \<longrightarrow>
          (CallChatCompletion \<in> set (snd (HandleToolCall env accepted))) =
          (\<exists>k < length tools. ID (tools ! k) \<in> set accepted
                \<and> \<not> isl (ResolveTool env k (tools ! k))))"
proof -
  let ?out = "toolLoop (ResolveTool env) accepted 0 tools"
  let ?some = "\<exists>k < length tools. ID (tools ! k) \<in> set accepted
                \<and> \<not> isl (ResolveTool env k (tools ! k))"
  have len: "length ?out = length tools"
    by (rule length_toolLoop)
  have each: "\<forall>k < length tools.
          (ID (tools ! k) \<in> set accepted \<and> isl (ResolveTool env k (tools ! k)) \<longrightarrow>
             ?out ! k = (tools ! k)\<lparr>Result := ''Tool call failed'', Status := ToolCallStatusError\<rparr>)
        \<and> (ID (tools ! k) \<in> set accepted \<and> \<not> isl (ResolveTool env k (tools ! k)) \<longrightarrow>
             ?out ! k = (tools ! k)\<lparr>Result := projr (ResolveTool env k (tools ! k)),
                                   Status := ToolCallStatusSuccess\<rparr>)
        \<and> (ID (tools ! k) \<notin> set accepted \<longrightarrow>
             ?out ! k = (tools ! k)\<lparr>Result := ''Tool call rejected by user'',
                                   Status := ToolCallStatusRejected\<rparr>)"
  proof (intro allI impI)
    fix k assume k: "k < length tools"
    have n: "?out ! k = resolveOne (ResolveTool env) accepted k (tools ! k)"
      using nth_toolLoop [OF k, of "ResolveTool env" accepted 0] by simp
    show "(ID (tools ! k) \<in> set accepted \<and> isl (ResolveTool env k (tools ! k)) \<longrightarrow>
             ?out ! k = (tools ! k)\<lparr>Result := ''Tool call failed'', Status := ToolCallStatusError\<rparr>)
        \<and> (ID (tools ! k) \<in> set accepted \<and> \<not> isl (ResolveTool env k (tools ! k)) \<longrightarrow>
             ?out ! k = (tools ! k)\<lparr>Result := projr (ResolveTool env k (tools ! k)),
                                   Status := ToolCallStatusSuccess\<rparr>)
        \<and> (ID (tools ! k) \<notin> set accepted \<longrightarrow>
             ?out ! k = (tools ! k)\<lparr>Result := ''Tool call rejected by user'',
                                   Status := ToolCallStatusRejected\<rparr>)"
      unfolding n by (cases "ResolveTool env k (tools ! k)") (simp_all add: resolveOne_def)
  qed
  have only: "CallChatCompletion \<in> set (snd (HandleToolCall env accepted)) \<longrightarrow> ?some"
    using completion_only_after_success [OF assms] by (simp add: toolLoop_success)
  have iff: "\<not> isl (Marshal env ?out) \<and> UpdatePost env = None \<and> GetThreadData env = None
        \<and> existingConversationToLLMPosts env = None \<longrightarrow>
          (CallChatCompletion \<in> set (snd (HandleToolCall env accepted))) = ?some"
    using completion_after_success [OF assms, of accepted] only
    by (auto simp: toolLoop_success)
  show ?thesis using len each only iff by blast
qed

lemma exampleCollaborators_simps:
  "GetBotByID (exampleCollaborators upd)" "UserGet (exampleCollaborators upd) = None"
  "ToolCallProp (exampleCollaborators upd) = PropString ''pending''"
  "Unmarshal (exampleCollaborators upd) ''pending'' = Inr pendingBatch"
  "Marshal (exampleCollaborators upd) ts = Inr ''resolved''"
  "UpdatePost (exampleCollaborators upd) = upd"
  "GetThreadData (exampleCollaborators upd) = None"
  "existingConversationToLLMPosts (exampleCollaborators upd) = None"
  "ChatCompletion (exampleCollaborators upd) = None"
  "StreamToNewPost (exampleCollaborators upd) = None"
  "ResolveTool (exampleCollaborators upd) i (pendingCall t ''search'') = Inr ''found''"
  "ResolveTool (exampleCollaborators upd) i (pendingCall t ''missing'') = Inl (Err ''unknown tool'')"
  by (simp_all add: exampleCollaborators_def pendingCall_def)

theorem tool_failures_do_not_abort_witness:
  "toolLoop (ResolveTool (exampleCollaborators None)) [''t1'', ''t2''] 0 pendingBatch =
     [(pendingCall ''t1'' ''search'')\<lparr>Result := ''found'', Status := ToolCallStatusSuccess\<rparr>,
      (pendingCall ''t2'' ''missing'')\<lparr>Result := ''Tool call failed'', Status := ToolCallStatusError\<rparr>,
      (pendingCall ''t3'' ''search'')\<lparr>Result := ''Tool call rejected by user'',
                                      Status := ToolCallStatusRejected\<rparr>]
   \<and> CallChatCompletion \<in> set (snd (HandleToolCall (exampleCollaborators None) [''t1'', ''t2'']))
   \<and> CallChatCompletion \<notin> set (snd (HandleToolCall (exampleCollaborators None) [''t2'']))
   \<and> fst (HandleToolCall (exampleCollaborators None) [''t2'']) = Inr None"
proof -
  let ?env = "exampleCollaborators None"
  note pre = exampleCollaborators_simps(1-4) [of None]
  note inst = tool_failures_do_not_abort [OF pre]
  have ids: "ID (pendingBatch ! 0) = ''t1''" "ID (pendingBatch ! 1) = ''t2''"
    "ID (pendingBatch ! 2) = ''t3''" "length pendingBatch = 3"
    "pendingBatch ! 0 = pendingCall ''t1'' ''search''"
    "pendingBatch ! 1 = pendingCall ''t2'' ''missing''"
    "pendingBatch ! 2 = pendingCall ''t3'' ''search''"
    by (simp_all add: pendingBatch_def pendingCall_def)
  have 1: "toolLoop (ResolveTool ?env) [''t1'', ''t2''] 0 pendingBatch =
     [(pendingCall ''t1'' ''search'')\<lparr>Result := ''found'', Status := ToolCallStatusSuccess\<rparr>,
      (pendingCall ''t2'' ''missing'')\<lparr>Result := ''Tool call failed'', Status := ToolCallStatusError\<rparr>,
      (pendingCall ''t3'' ''search'')\<lparr>Result := ''Tool call rejected by user'',
                                      Status := ToolCallStatusRejected\<rparr>]"
    by (simp add: pendingBatch_def resolveOne_def pendingCall_def exampleCollaborators_def)
  have some: "\<exists>k < length pendingBatch. ID (pendingBatch ! k) \<in> set [''t1'', ''t2'']
      \<and> \<not> isl (ResolveTool ?env k (pendingBatch ! k))"
    by (rule exI [where x = 0])
      (simp add: pendingBatch_def pendingCall_def exampleCollaborators_def)
  have 2: "CallChatCompletion \<in> set (snd (HandleToolCall ?env [''t1'', ''t2'']))"
    using inst [of "[''t1'', ''t2'']", THEN conjunct2, THEN conjunct2, THEN conjunct2] some
    by (simp add: exampleCollaborators_simps)
  have none: "\<not> (\<exists>k < length pendingBatch. ID (pendingBatch ! k) \<in> set [''t2'']
      \<and> \<not> isl (ResolveTool ?env k (pendingBatch ! k)))"
  proof -
    have "\<not> list_ex (\<lambda>tc. Status tc = ToolCallStatusSuccess)
        (toolLoop (ResolveTool ?env) [''t2''] 0 pendingBatch)"
      by (simp add: pendingBatch_def resolveOne_def pendingCall_def exampleCollaborators_def)
    then show ?thesis by (simp only: toolLoop_success) simp
  qed
  have 3: "CallChatCompletion \<notin> set (snd (HandleToolCall ?env [''t2'']))"
    using inst [of "[''t2'']", THEN conjunct2, THEN conjunct2, THEN conjunct1] none by blast
  have 4: "fst (HandleToolCall ?env [''t2'']) = Inr None"
    by (simp add: HandleToolCall_def exampleCollaborators_def Let_def pendingBatch_def
        resolveOne_def pendingCall_def)
  show ?thesis using 1 2 3 4 by simp
qed

text \<open>
  C8 as stated fails: the first call of the batch is accepted and resolves successfully,
  the update of the post fails, and the handler returns that error without requesting a
  completion.
\<close>

theorem completion_iff_success_counterexample:
  "Status (toolLoop (ResolveTool (exampleCollaborators (Some (Err ''post deleted''))))
             [''t1''] 0 pendingBatch ! 0) = ToolCallStatusSuccess
   \<and> HandleToolCall (exampleCollaborators (Some (Err ''post deleted''))) [''t1''] =
       (Inr (Some (Err ''failed to update post with tool call results: post deleted'')),
        [CallUpdatePost ''resolved''])
   \<and> CallChatCompletion
       \<notin> set (snd (HandleToolCall (exampleCollaborators (Some (Err ''post deleted''))) [''t1'']))"
  by (simp add: HandleToolCall_def exampleCollaborators_def Let_def pendingBatch_def
      resolveOne_def pendingCall_def Errorf_def)

end
